theory Spec2Isabelle
  imports Complex_Main "HOL-Library.Sublist"
begin

section \<open>Python strings\<close>

text \<open>
  A Python \<open>str\<close> is modelled as a \<open>string\<close> whose characters are the code points
  below 256. The character classes below are the ones Python's \<open>str.isspace\<close>,
  \<open>str.lower\<close> and the \<open>re\<close> classes \<open>\\s\<close>, \<open>\\d\<close>, \<open>\\w\<close> assign to
  those code points.
\<close>

definition py_isspace :: "char \<Rightarrow> bool" where
  "py_isspace c =
     (let n = (of_char c :: nat)
      in (9 \<le> n \<and> n \<le> 13) \<or> (28 \<le> n \<and> n \<le> 32) \<or> n = 133 \<or> n = 160)"

definition py_isdigit :: "char \<Rightarrow> bool" where
  "py_isdigit c = (let n = (of_char c :: nat) in 48 \<le> n \<and> n \<le> 57)"

definition py_isword :: "char \<Rightarrow> bool" where
  "py_isword c =
     (let n = (of_char c :: nat)
      in (48 \<le> n \<and> n \<le> 57) \<or> (65 \<le> n \<and> n \<le> 90) \<or> n = 95 \<or> (97 \<le> n \<and> n \<le> 122)
         \<or> n = 170 \<or> n = 178 \<or> n = 179 \<or> n = 181 \<or> n = 185 \<or> n = 186
         \<or> (188 \<le> n \<and> n \<le> 190) \<or> (192 \<le> n \<and> n \<le> 214)
         \<or> (216 \<le> n \<and> n \<le> 246) \<or> (248 \<le> n \<and> n \<le> 255))"

definition lower_char :: "char \<Rightarrow> char" where
  "lower_char c =
     (let n = (of_char c :: nat)
      in if (65 \<le> n \<and> n \<le> 90) \<or> (192 \<le> n \<and> n \<le> 214) \<or> (216 \<le> n \<and> n \<le> 222)
         then char_of (n + 32) else c)"

definition lower :: "string \<Rightarrow> string" where
  "lower s = map lower_char s"

text \<open>\<open>s.strip()\<close>\<close>

definition strip :: "string \<Rightarrow> string" where
  "strip s = rev (dropWhile py_isspace (rev (dropWhile py_isspace s)))"

text \<open>\<open>s.split(sep)\<close> for a separator of one character: never the empty list.\<close>

fun split_on :: "char \<Rightarrow> string \<Rightarrow> string list" where
  "split_on sep [] = [[]]"
| "split_on sep (c # cs) =
     (if c = sep then [] # split_on sep cs
      else (case split_on sep cs of
              [] \<Rightarrow> [[c]]
            | w # ws \<Rightarrow> (c # w) # ws))"

text \<open>\<open>s.split()\<close>: the maximal runs of non-whitespace characters; \<open>w\<close> is the run being read.\<close>

fun split_ws_from :: "string \<Rightarrow> string \<Rightarrow> string list" where
  "split_ws_from w [] = (if w = [] then [] else [w])"
| "split_ws_from w (c # cs) =
     (if py_isspace c
      then (if w = [] then split_ws_from [] cs else w # split_ws_from [] cs)
      else split_ws_from (w @ [c]) cs)"

definition split_ws :: "string \<Rightarrow> string list" where
  "split_ws s = split_ws_from [] s"

text \<open>\<open>sep.join(xs)\<close>\<close>

fun join :: "string \<Rightarrow> string list \<Rightarrow> string" where
  "join sep [] = []"
| "join sep [x] = x"
| "join sep (x # y # ys) = x @ sep @ join sep (y # ys)"

text \<open>\<open>needle in haystack\<close> on strings: a contiguous occurrence.\<close>

fun py_in :: "string \<Rightarrow> string \<Rightarrow> bool" where
  "py_in needle [] = (needle = [])"
| "py_in needle (c # cs) = (prefix needle (c # cs) \<or> py_in needle cs)"

text \<open>\<open>s.replace(a, b)\<close> for a single character \<open>a\<close>.\<close>

definition replace_char :: "char \<Rightarrow> string \<Rightarrow> string \<Rightarrow> string" where
  "replace_char a b s = concat (map (\<lambda>c. if c = a then b else [c]) s)"

text \<open>\<open>" ".join(re.split(" +", s))\<close>: every run of spaces becomes one space.\<close>

fun collapse_spaces :: "string \<Rightarrow> string" where
  "collapse_spaces (a # b # cs) =
     (if a = CHR '' '' \<and> b = CHR '' '' then collapse_spaces (b # cs)
      else a # collapse_spaces (b # cs))"
| "collapse_spaces cs = cs"

abbreviation newline :: char where
  "newline \<equiv> CHR 0x0A"

section \<open>The caption deduplicator and transcript assembler (\<^verbatim>\<open>extractor.py\<close>)\<close>

text \<open>
  A webvtt caption: its two timestamps and its text. A timestamp has millisecond
  precision (\<open>HH:MM:SS.mmm\<close>), so \<open>start_time\<close> and \<open>end_time\<close> are whole
  milliseconds, and \<open>_ts_to_secs\<close>, \<open>_timestamp_to_seconds\<close> and
  \<open>_seconds_to_timestamp\<close> are exact on them: the rounding of the source's
  floating-point seconds is not modelled, so a comparison that the source decides
  on a difference of exactly 0.15 s, 1 s or 2 s may differ from the model.
  The field \<open>caption_text\<close> is the caption's \<open>text\<close>; the caption class belongs
  to the webvtt library, and assigning its text is taken to store the string as it is.
\<close>

record caption =
  start_time :: nat
  end_time :: nat
  caption_text :: string

text \<open>
  The boundary correction and the swap of an inverted interval
  (lines 343 to 351): the pending caption and the new one, both updated.
\<close>

definition fix_boundaries :: "caption \<Rightarrow> caption \<Rightarrow> caption \<times> caption" where
  "fix_boundaries previous_subtitle subtitle =
     (let previous' =
            (if start_time subtitle \<le> end_time previous_subtitle
             then previous_subtitle\<lparr>end_time := nat (max (int (start_time subtitle) - 1) 0)\<rparr>
             else previous_subtitle);
          subtitle' =
            (if start_time subtitle \<ge> end_time subtitle
             then subtitle\<lparr>start_time := end_time subtitle, end_time := start_time subtitle\<rparr>
             else subtitle)
      in (previous', subtitle'))"

text \<open>
  One iteration of the loop of \<open>_dedupe_yt_captions\<close> once \<open>previous_subtitle\<close>
  is set: the captions it yields (none or one) and the pending caption it leaves.
\<close>

definition dedupe_step :: "caption \<Rightarrow> caption \<Rightarrow> caption list \<times> caption" where
  "dedupe_step previous_subtitle subtitle =
     (case strip (caption_text subtitle) of
        [] \<Rightarrow> ([], previous_subtitle)
      | c # cs \<Rightarrow>
          (let t = c # cs in
           if int (start_time subtitle) - int (end_time subtitle) < 150
              \<and> py_in t (caption_text previous_subtitle)
           then ([], previous_subtitle\<lparr>end_time := end_time subtitle\<rparr>)
           else
             (let current_lines = split_on newline t;
                  last_lines = split_on newline (caption_text previous_subtitle)
              in
              if hd current_lines = last last_lines
              then
                (if length last_lines = 1
                    \<and> length (split_on CHR '' '' (hd last_lines)) < 2
                    \<and> length (hd last_lines) > 2
                 then
                   (case fix_boundaries previous_subtitle
                           (subtitle\<lparr>caption_text :=
                              hd current_lines @ '' '' @ join [newline] (tl current_lines)\<rparr>)
                    of (previous', subtitle') \<Rightarrow> ([], subtitle'))
                 else
                   (case fix_boundaries previous_subtitle
                           (subtitle\<lparr>caption_text := join [newline] (tl current_lines)\<rparr>)
                    of (previous', subtitle') \<Rightarrow> ([previous'], subtitle')))
              else
                (if length (split_on CHR '' '' t) \<le> 2
                 then ([], previous_subtitle
                             \<lparr>end_time := end_time subtitle,
                              caption_text := caption_text previous_subtitle
                                      @ (if c \<noteq> CHR '' '' then '' '' @ t else t)\<rparr>)
                 else
                   (case fix_boundaries previous_subtitle (subtitle\<lparr>caption_text := t\<rparr>)
                    of (previous', subtitle') \<Rightarrow> ([previous'], subtitle'))))))"

text \<open>The loop: the captions yielded, in order, the last pending one at the end.\<close>

fun dedupe_loop :: "caption \<Rightarrow> caption list \<Rightarrow> caption list" where
  "dedupe_loop previous_subtitle [] = [previous_subtitle]"
| "dedupe_loop previous_subtitle (subtitle # subs) =
     (case dedupe_step previous_subtitle subtitle of
        (yielded, pending) \<Rightarrow> yielded @ dedupe_loop pending subs)"

definition dedupe_yt_captions :: "caption list \<Rightarrow> caption list" where
  "dedupe_yt_captions subs_iter =
     (case subs_iter of
        [] \<Rightarrow> []
      | subtitle # subs \<Rightarrow> dedupe_loop subtitle subs)"

text \<open>A transcript segment; times in milliseconds, as above.\<close>

record segment =
  startTime :: nat
  endTime :: nat
  segment_text :: string

datatype 'e error = ValueError string | ParserError 'e

definition current_text :: "caption \<Rightarrow> string" where
  "current_text cap = strip (replace_char newline '' '' (caption_text cap))"

text \<open>
  The loop of \<open>parse_captions\<close> over the deduplicated captions: \<open>prev\<close> is
  \<open>captions_list[i - 1]\<close> (none when \<open>i = 0\<close>), \<open>result\<close> the text so far.
\<close>

fun assemble :: "caption option \<Rightarrow> string \<Rightarrow> caption list \<Rightarrow> string \<times> segment list" where
  "assemble prev result [] = (result, [])"
| "assemble prev result (cap # caps) =
     (let seg = \<lparr>startTime = start_time cap, endTime = end_time cap,
                 segment_text = current_text cap\<rparr>;
          separator =
            (case prev of
               None \<Rightarrow> []
             | Some p \<Rightarrow>
                 (let time_diff = int (start_time cap) - int (end_time p)
                  in if time_diff \<ge> 2000 then [newline, newline]
                     else if time_diff \<ge> 1000 then [newline]
                     else '' ''))
      in (case assemble (Some cap) (result @ separator @ current_text cap) caps of
            (result', segments) \<Rightarrow> (result', seg # segments)))"

text \<open>
  \<open>parse_captions\<close>. The parser \<open>webvtt.from_string\<close> belongs to a library and is
  a parameter: it returns the captions of the content or fails.
\<close>

definition parse_captions ::
  "(string \<Rightarrow> 'e + caption list) \<Rightarrow> string \<Rightarrow> string \<Rightarrow> 'e error + (string \<times> segment list)" where
  "parse_captions from_string ext content =
     (if ext \<noteq> ''vtt'' then Inl (ValueError (''Unsupported caption format: '' @ ext))
      else (case from_string content of
              Inl e \<Rightarrow> Inl (ParserError e)
            | Inr captions \<Rightarrow>
                (case assemble None [] (dedupe_yt_captions captions) of
                   (result, segments) \<Rightarrow> Inr (collapse_spaces result, segments))))"

text \<open>
  A parser that yields the given captions whatever the content: it stands for
  \<open>webvtt.from_string\<close> in the examples.
\<close>

definition from_captions :: "caption list \<Rightarrow> string \<Rightarrow> unit + caption list" where
  "from_captions captions content = Inr captions"

subsection \<open>Properties of caption sequences\<close>

text \<open>A caption whose interval is not inverted.\<close>

definition forward :: "caption \<Rightarrow> bool" where
  "forward c = (start_time c \<le> end_time c)"

text \<open>
  A caption that no rule of the deduplicator applies to, after the pending caption
  \<open>previous_subtitle\<close>: its text is trimmed and not empty, is not contained in the
  pending text, does not start with the pending caption's last line, has more than two
  words, and its interval lies after the pending caption's end and is not inverted.
\<close>

definition untouched :: "caption \<Rightarrow> caption \<Rightarrow> bool" where
  "untouched previous_subtitle subtitle =
     (strip (caption_text subtitle) = caption_text subtitle
      \<and> caption_text subtitle \<noteq> []
      \<and> \<not> py_in (caption_text subtitle) (caption_text previous_subtitle)
      \<and> hd (split_on newline (caption_text subtitle))
          \<noteq> last (split_on newline (caption_text previous_subtitle))
      \<and> 2 < length (split_on CHR '' '' (caption_text subtitle))
      \<and> end_time previous_subtitle < start_time subtitle
      \<and> start_time subtitle < end_time subtitle)"

text \<open>A clean caption sequence: every caption after the first is untouched after its predecessor.\<close>

fun clean :: "caption list \<Rightarrow> bool" where
  "clean (p # s # rest) = (untouched p s \<and> clean (s # rest))"
| "clean subs = True"

section \<open>The cue parser and keyword matcher (\<^verbatim>\<open>generate_recipes.py\<close>)\<close>

text \<open>\<open>s.find(needle)\<close>: the first index of an occurrence, \<open>None\<close> for Python's \<open>-1\<close>.\<close>

fun find_str :: "string \<Rightarrow> string \<Rightarrow> nat option" where
  "find_str [] needle = (if needle = [] then Some 0 else None)"
| "find_str (c # cs) needle =
     (if prefix needle (c # cs) then Some 0 else map_option Suc (find_str cs needle))"

definition STOPWORDS :: "string set" where
  "STOPWORDS =
     {''form'', ''place'', ''put'', ''add'', ''make'', ''take'', ''get'', ''use'', ''set'',
      ''turn'', ''let'', ''give'', ''keep'', ''bring'', ''start'', ''try'', ''want'',
      ''top'', ''side'', ''bit'', ''way'', ''time'', ''thing'', ''part'', ''end''}"

text \<open>
  The stemmer (\<open>stemmer.stemWords\<close>) and the two similarity scores
  (\<open>fuzz.ratio\<close>, \<open>fuzz.partial_ratio\<close>) belong to libraries and are parameters
  throughout: \<open>stemWords\<close>, \<open>ratio\<close> and \<open>partial_ratio\<close>.
\<close>

definition normalize_text :: "(string list \<Rightarrow> string list) \<Rightarrow> string \<Rightarrow> string" where
  "normalize_text stemWords txt =
     (let lowered = lower txt;
          unpunctuated = map (\<lambda>c. if \<not> py_isword c \<and> \<not> py_isspace c then CHR '' '' else c) lowered;
          words = split_ws unpunctuated;
          stemmed = stemWords words
      in join '' '' stemmed)"

definition stem_keyword :: "(string list \<Rightarrow> string list) \<Rightarrow> string \<Rightarrow> string" where
  "stem_keyword stemWords keyword =
     (let words = split_ws (lower keyword);
          stemmed = stemWords words
      in join '' '' stemmed)"

text \<open>
  A cue of \<open>parse_vtt_cues\<close>. The source's \<open>start_seconds\<close> is a float with
  millisecond precision; the model keeps it in whole milliseconds
  (\<open>start_millis\<close>), so \<open>int(cue['start_seconds'])\<close> is \<open>start_millis div 1000\<close>.
\<close>

record cue =
  start_millis :: nat
  cue_text :: string
  normalized :: string

text \<open>The pattern \<open>\\d{2}:\\d{2}:\\d{2}\\.\\d{3}\<close> on a string of exactly twelve characters.\<close>

definition is_timestamp :: "string \<Rightarrow> bool" where
  "is_timestamp s =
     (length s = 12
      \<and> py_isdigit (s ! 0) \<and> py_isdigit (s ! 1) \<and> s ! 2 = CHR '':''
      \<and> py_isdigit (s ! 3) \<and> py_isdigit (s ! 4) \<and> s ! 5 = CHR '':''
      \<and> py_isdigit (s ! 6) \<and> py_isdigit (s ! 7) \<and> s ! 8 = CHR ''.''
      \<and> py_isdigit (s ! 9) \<and> py_isdigit (s ! 10) \<and> py_isdigit (s ! 11))"

text \<open>\<open>re.match\<close> of that pattern at the start of a line: the match and what follows it.\<close>

definition match_timestamp :: "string \<Rightarrow> (string \<times> string) option" where
  "match_timestamp line =
     (if is_timestamp (take 12 line) then Some (take 12 line, drop 12 line) else None)"

text \<open>
  \<open>re.match\<close> of the timestamp line
  \<open>(\\d{2}:\\d{2}:\\d{2}\\.\\d{3})\\s*-->\\s*(\\d{2}:\\d{2}:\\d{2}\\.\\d{3})\<close>: its two groups.
\<close>

definition timestamp_match :: "string \<Rightarrow> (string \<times> string) option" where
  "timestamp_match line =
     (case match_timestamp line of
        None \<Rightarrow> None
      | Some (group1, after1) \<Rightarrow>
          (let arrow = dropWhile py_isspace after1
           in if prefix ''-->'' arrow
              then (case match_timestamp (dropWhile py_isspace (drop 3 arrow)) of
                      None \<Rightarrow> None
                    | Some (group2, after2) \<Rightarrow> Some (group1, group2))
              else None))"

definition digit_value :: "char \<Rightarrow> nat" where
  "digit_value c = of_char c - 48"

text \<open>
  \<open>float(parts[0]) * 3600 + float(parts[1]) * 60 + float(parts[2])\<close> for a matched
  \<open>HH:MM:SS.mmm\<close>, in milliseconds.
\<close>

definition start_millis_of :: "string \<Rightarrow> nat" where
  "start_millis_of start_ts =
     (let hours = digit_value (start_ts ! 0) * 10 + digit_value (start_ts ! 1);
          minutes = digit_value (start_ts ! 3) * 10 + digit_value (start_ts ! 4);
          seconds = digit_value (start_ts ! 6) * 10 + digit_value (start_ts ! 7);
          millis = digit_value (start_ts ! 9) * 100 + digit_value (start_ts ! 10) * 10
                   + digit_value (start_ts ! 11)
      in (hours * 3600 + minutes * 60 + seconds) * 1000 + millis)"

text \<open>\<open>re.sub(r'<[^>]+>', '', raw_text)\<close>\<close>

function remove_tags :: "string \<Rightarrow> string" where
  "remove_tags [] = []"
| "remove_tags (c # cs) =
     (if c = CHR ''<'' \<and> takeWhile (\<lambda>x. x \<noteq> CHR ''>'') cs \<noteq> []
         \<and> dropWhile (\<lambda>x. x \<noteq> CHR ''>'') cs \<noteq> []
      then remove_tags (tl (dropWhile (\<lambda>x. x \<noteq> CHR ''>'') cs))
      else c # remove_tags cs)"
  by pat_completeness auto
termination
proof (relation "measure length")
  fix c :: char and cs :: string
  have "length (tl (dropWhile (\<lambda>x. x \<noteq> CHR ''>'') cs)) \<le> length cs"
    using length_dropWhile_le [of "\<lambda>x. x \<noteq> CHR ''>''" cs] by simp
  then show "(tl (dropWhile (\<lambda>x. x \<noteq> CHR ''>'') cs), c # cs) \<in> measure length"
    by simp
qed simp_all

text \<open>A line the inner loop of \<open>parse_vtt_cues\<close> takes as text of the current cue.\<close>

definition is_text_line :: "string \<Rightarrow> bool" where
  "is_text_line line = (strip line \<noteq> [] \<and> match_timestamp (strip line) = None)"

text \<open>The cue (if any) of one timestamp line and the text lines after it.\<close>

definition cue_of :: "(string list \<Rightarrow> string list) \<Rightarrow> string \<Rightarrow> string list \<Rightarrow> cue list" where
  "cue_of stemWords start_ts text_lines =
     (if text_lines \<noteq> []
      then (let raw_text = join '' '' text_lines;
                clean_text = join '' '' (split_ws (remove_tags raw_text))
            in if clean_text \<noteq> []
               then [\<lparr>start_millis = start_millis_of start_ts, cue_text = clean_text,
                      normalized = normalize_text stemWords clean_text\<rparr>]
               else [])
      else [])"

text \<open>The outer loop of \<open>parse_vtt_cues\<close> from line \<open>i\<close> on: \<open>lines[i:]\<close> is the argument.\<close>

function parse_lines :: "(string list \<Rightarrow> string list) \<Rightarrow> string list \<Rightarrow> cue list" where
  "parse_lines stemWords [] = []"
| "parse_lines stemWords (line # rest) =
     (case timestamp_match (strip line) of
        Some (start_ts, end_ts) \<Rightarrow>
          cue_of stemWords start_ts (map strip (takeWhile is_text_line rest))
          @ parse_lines stemWords (dropWhile is_text_line rest)
      | None \<Rightarrow> parse_lines stemWords rest)"
  by pat_completeness auto
termination
  by (relation "measure (\<lambda>(stemWords, ls). length ls)")
     (auto simp: le_imp_less_Suc length_dropWhile_le)

definition parse_vtt_cues :: "(string list \<Rightarrow> string list) \<Rightarrow> string \<Rightarrow> cue list" where
  "parse_vtt_cues stemWords vtt_content = parse_lines stemWords (split_on newline vtt_content)"

record video_reference =
  keyword :: string
  timestamp_seconds :: int
  reference_context :: string

text \<open>Whether the keyword appears in a cue (lines 145 to 166).\<close>

definition keyword_found ::
  "(string \<Rightarrow> string \<Rightarrow> real) \<Rightarrow> (string \<Rightarrow> string \<Rightarrow> real) \<Rightarrow> int \<Rightarrow> string \<Rightarrow> cue \<Rightarrow> bool" where
  "keyword_found ratio partial_ratio fuzzy_threshold stemmed_keyword c =
     (if length (split_ws stemmed_keyword) = 1
      then list_ex (\<lambda>cue_word. cue_word = stemmed_keyword
                                \<or> ratio cue_word stemmed_keyword \<ge> of_int fuzzy_threshold)
             (split_ws (normalized c))
      else py_in stemmed_keyword (normalized c)
           \<or> partial_ratio stemmed_keyword (normalized c) \<ge> of_int fuzzy_threshold)"

text \<open>The context of a hit at cue \<open>i\<close> (lines 181 to 200).\<close>

definition build_context :: "cue list \<Rightarrow> nat \<Rightarrow> string \<Rightarrow> string" where
  "build_context cues i kw =
     (let context_parts =
            (if i > 0 then [cue_text (cues ! (i - 1))] else [])
            @ [cue_text (cues ! i)]
            @ (if i < length cues - 1 then [cue_text (cues ! (i + 1))] else []);
          ctx = join '' '' context_parts
      in if length ctx > 100
         then (case find_str (lower ctx) (lower kw) of
                 None \<Rightarrow> take 100 ctx @ ''...''
               | Some idx \<Rightarrow>
                   (let start = idx - 40;
                        stop = min (length ctx) (idx + length kw + 40)
                    in (if start > 0 then ''...'' else [])
                       @ drop start (take stop ctx)
                       @ (if stop < length ctx then ''...'' else [])))
         else ctx)"

text \<open>\<open>any(abs(timestamp - seen_ts) <= 3 for seen_ts in seen)\<close>\<close>

definition is_duplicate :: "int \<Rightarrow> int list \<Rightarrow> bool" where
  "is_duplicate timestamp seen = list_ex (\<lambda>seen_ts. \<bar>timestamp - seen_ts\<bar> \<le> 3) seen"

text \<open>The state of the search: the dictionary \<open>seen_timestamps\<close> and the list \<open>matches\<close>.\<close>

record search_state =
  seen_timestamps :: "string \<rightharpoonup> int list"
  matches :: "video_reference list"

text \<open>
  The body of the loop over the cues, at cue \<open>i\<close>, for one keyword. The entry of
  \<open>seen_timestamps\<close> for the keyword exists when the loop runs.
\<close>

definition visit_cue ::
  "(string list \<Rightarrow> string list) \<Rightarrow> (string \<Rightarrow> string \<Rightarrow> real) \<Rightarrow> (string \<Rightarrow> string \<Rightarrow> real) \<Rightarrow> int
   \<Rightarrow> cue list \<Rightarrow> string \<Rightarrow> nat \<Rightarrow> search_state \<Rightarrow> search_state" where
  "visit_cue stemWords ratio partial_ratio fuzzy_threshold cues kw i st =
     (let stemmed_keyword = stem_keyword stemWords kw;
          keyword_lower = lower kw
      in if keyword_found ratio partial_ratio fuzzy_threshold stemmed_keyword (cues ! i)
         then (let timestamp = int (start_millis (cues ! i) div 1000);
                   seen = (case seen_timestamps st keyword_lower of Some ts \<Rightarrow> ts | None \<Rightarrow> [])
               in if is_duplicate timestamp seen then st
                  else st\<lparr>seen_timestamps := (seen_timestamps st)(keyword_lower \<mapsto> seen @ [timestamp]),
                          matches := matches st
                            @ [\<lparr>keyword = kw, timestamp_seconds = timestamp,
                                 reference_context = build_context cues i kw\<rparr>]\<rparr>)
         else st)"

text \<open>The body of the loop over the keywords.\<close>

definition search_keyword ::
  "(string list \<Rightarrow> string list) \<Rightarrow> (string \<Rightarrow> string \<Rightarrow> real) \<Rightarrow> (string \<Rightarrow> string \<Rightarrow> real) \<Rightarrow> int
   \<Rightarrow> cue list \<Rightarrow> string \<Rightarrow> search_state \<Rightarrow> search_state" where
  "search_keyword stemWords ratio partial_ratio fuzzy_threshold cues kw st =
     (if lower kw \<in> STOPWORDS then st
      else (let st' = (if seen_timestamps st (lower kw) = None
                       then st\<lparr>seen_timestamps := (seen_timestamps st)(lower kw \<mapsto> [])\<rparr>
                       else st)
            in fold (visit_cue stemWords ratio partial_ratio fuzzy_threshold cues kw)
                 [0..<length cues] st'))"

definition search_vtt_for_keywords ::
  "(string list \<Rightarrow> string list) \<Rightarrow> (string \<Rightarrow> string \<Rightarrow> real) \<Rightarrow> (string \<Rightarrow> string \<Rightarrow> real)
   \<Rightarrow> string \<Rightarrow> string list \<Rightarrow> int \<Rightarrow> video_reference list" where
  "search_vtt_for_keywords stemWords ratio partial_ratio vtt_content keywords fuzzy_threshold =
     (let cues = parse_vtt_cues stemWords vtt_content;
          st = fold (search_keyword stemWords ratio partial_ratio fuzzy_threshold cues) keywords
                 \<lparr>seen_timestamps = Map.empty, matches = []\<rparr>
      in sort_key timestamp_seconds (matches st))"

subsection \<open>The temporal deduplication, as specified\<close>

text \<open>
  The spec's rule, on the timestamps alone: going through the raw hits of one keyword
  in order, a hit is discarded if and only if it is within 3 seconds (inclusive) of
  a timestamp retained before it (\<open>seen\<close>); otherwise it is retained.
\<close>

fun retained_hits :: "int list \<Rightarrow> int list \<Rightarrow> int list" where
  "retained_hits seen [] = []"
| "retained_hits seen (t # ts) =
     (if \<exists>s\<in>set seen. \<bar>t - s\<bar> \<le> 3 then retained_hits seen ts
      else t # retained_hits (seen @ [t]) ts)"

text \<open>The raw hits of a keyword: the timestamps of the cues it is found in, in cue order.\<close>

definition raw_hits ::
  "(string list \<Rightarrow> string list) \<Rightarrow> (string \<Rightarrow> string \<Rightarrow> real) \<Rightarrow> (string \<Rightarrow> string \<Rightarrow> real) \<Rightarrow> int
   \<Rightarrow> cue list \<Rightarrow> string \<Rightarrow> int list" where
  "raw_hits stemWords ratio partial_ratio fuzzy_threshold cues kw =
     map (\<lambda>c. int (start_millis c div 1000))
       (filter (keyword_found ratio partial_ratio fuzzy_threshold (stem_keyword stemWords kw)) cues)"

text \<open>
  The same rule over the whole keyword list, on the pairs of keyword and timestamp:
  the keywords are taken in order, a stopword gives nothing, and the timestamps
  retained so far are kept per lower-cased keyword (\<open>seen\<close>), so a hit of one
  keyword is never discarded because of a hit of a keyword of another group.
\<close>

fun retained_matches ::
  "(string list \<Rightarrow> string list) \<Rightarrow> (string \<Rightarrow> string \<Rightarrow> real) \<Rightarrow> (string \<Rightarrow> string \<Rightarrow> real) \<Rightarrow> int
   \<Rightarrow> cue list \<Rightarrow> string list \<Rightarrow> (string \<Rightarrow> int list) \<Rightarrow> (string \<times> int) list" where
  "retained_matches stemWords ratio partial_ratio fuzzy_threshold cues [] seen = []"
| "retained_matches stemWords ratio partial_ratio fuzzy_threshold cues (kw # kws) seen =
     (if lower kw \<in> STOPWORDS
      then retained_matches stemWords ratio partial_ratio fuzzy_threshold cues kws seen
      else (let kept = retained_hits (seen (lower kw))
                         (raw_hits stemWords ratio partial_ratio fuzzy_threshold cues kw)
            in map (Pair kw) kept
               @ retained_matches stemWords ratio partial_ratio fuzzy_threshold cues kws
                   (seen(lower kw := seen (lower kw) @ kept))))"

text \<open>The timestamps recorded for a (lower-cased) keyword; none when it has no entry.\<close>

definition seen_for :: "search_state \<Rightarrow> string \<Rightarrow> int list" where
  "seen_for st keyword_lower =
     (case seen_timestamps st keyword_lower of Some ts \<Rightarrow> ts | None \<Rightarrow> [])"

text \<open>
  A similarity score that never reaches a threshold: it stands for \<open>fuzz.ratio\<close> and
  \<open>fuzz.partial_ratio\<close> in the examples, where the keyword occurs literally.
\<close>

definition no_similarity :: "string \<Rightarrow> string \<Rightarrow> real" where
  "no_similarity a b = 0"

section \<open>The step timer (\<^verbatim>\<open>generate_recipes.py\<close>)\<close>

record keyword_set =
  ingredients :: "string list"
  techniques :: "string list"
  equipment :: "string list"

record time_window =
  start_seconds :: int
  end_seconds :: int

text \<open>
  An instruction: \<open>step\<close> is \<open>None\<close> when the key is absent, the references and
  keyword lists are empty when theirs are, and \<open>predicted_time\<close> is \<open>None\<close> until
  the timer sets it. The transient \<open>_raw_start\<close> is kept beside the instruction,
  in a pair. The instructions of a list are distinct objects, so the list is a list
  of values.
\<close>

record instruction =
  step :: "int option"
  video_references :: "video_reference list"
  instruction_keywords :: keyword_set
  predicted_time :: "time_window option"

datatype timer_error = TypeError

definition MIN_STEP_DURATION :: int where
  "MIN_STEP_DURATION = 5"

text \<open>First pass: the raw start of one instruction.\<close>

definition raw_start_of :: "instruction \<Rightarrow> int option" where
  "raw_start_of instr =
     (let refs = video_references instr;
          techs = techniques (instruction_keywords instr)
      in if refs \<noteq> []
         then (let technique_refs = filter (\<lambda>r. lower (keyword r) \<in> set (map lower techs)) refs
               in if technique_refs \<noteq> []
                  then Some (min_list (map timestamp_seconds technique_refs))
                  else Some (min_list (map timestamp_seconds refs)))
         else None)"

definition known_times_of :: "int option list \<Rightarrow> (nat \<times> int) list" where
  "known_times_of raws = [(i, t). (i, Some t) \<leftarrow> enumerate 0 raws]"

text \<open>
  The search for the nearest known times before and after step \<open>i\<close>
  (lines 421 to 426): \<open>prev_known\<close> so far, and the rest of \<open>known_times\<close>.
\<close>

fun find_known ::
  "nat \<Rightarrow> (nat \<times> int) option \<Rightarrow> (nat \<times> int) list \<Rightarrow> (nat \<times> int) option \<times> (nat \<times> int) option" where
  "find_known i prev_known [] = (prev_known, None)"
| "find_known i prev_known ((idx, t) # known) =
     (if idx < i then find_known i (Some (idx, t)) known
      else if idx > i then (prev_known, Some (idx, t))
      else find_known i prev_known known)"

text \<open>
  The linear interpolation
  \<open>int(prev_time + ((i - prev_idx) / (next_idx - prev_idx)) * (next_time - prev_time))\<close>
  is computed in floating point and is a parameter, \<open>interp i prev_idx prev_time
  next_idx next_time\<close>. \<open>interp_exact\<close> is its value when the division and the
  product are exact (the quotient truncated towards zero, as \<open>int\<close> does).
\<close>

definition interp_exact :: "nat \<Rightarrow> nat \<Rightarrow> int \<Rightarrow> nat \<Rightarrow> int \<Rightarrow> int" where
  "interp_exact i prev_idx prev_time next_idx next_time =
     (let d = int next_idx - int prev_idx;
          n = prev_time * d + (int i - int prev_idx) * (next_time - prev_time)
      in if n \<ge> 0 then n div d else - ((- n) div d))"

text \<open>Second pass, for one instruction without a raw start, when some are known.\<close>

definition fill_missing ::
  "(nat \<Rightarrow> nat \<Rightarrow> int \<Rightarrow> nat \<Rightarrow> int \<Rightarrow> int) \<Rightarrow> int \<Rightarrow> nat \<Rightarrow> (nat \<times> int) list \<Rightarrow> nat \<Rightarrow> int option" where
  "fill_missing interp video_duration n known_times i =
     (case find_known i None known_times of
        (Some (prev_idx, prev_time), Some (next_idx, next_time)) \<Rightarrow>
          Some (interp i prev_idx prev_time next_idx next_time)
      | (Some (prev_idx, prev_time), None) \<Rightarrow>
          (let avg_duration = video_duration div int n
           in Some (min (prev_time + avg_duration * (int i - int prev_idx))
                        (video_duration - MIN_STEP_DURATION)))
      | (None, Some (next_idx, next_time)) \<Rightarrow>
          (let avg_duration = video_duration div int n
           in Some (max (next_time - avg_duration * (int next_idx - int i)) 0))
      | (None, None) \<Rightarrow> None)"

definition second_pass ::
  "(nat \<Rightarrow> nat \<Rightarrow> int \<Rightarrow> nat \<Rightarrow> int \<Rightarrow> int) \<Rightarrow> int \<Rightarrow> int option list \<Rightarrow> int option list" where
  "second_pass interp video_duration raws =
     (let known_times = known_times_of raws;
          n = length raws
      in if known_times = []
         then (let step_duration = video_duration div int (max n 1)
               in map (\<lambda>i. Some (int i * step_duration)) [0..<n])
         else map (\<lambda>(i, raw). case raw of
                                 Some t \<Rightarrow> Some t
                               | None \<Rightarrow> fill_missing interp video_duration n known_times i)
                (enumerate 0 raws))"

text \<open>
  Third pass over the sorted instructions: \<open>prev_end\<close> is the predicted end of the
  step before (\<open>None\<close> at the first step). A raw start that is still \<open>None\<close>
  makes \<open>max\<close> raise \<open>TypeError\<close>.
\<close>

fun third_pass ::
  "int \<Rightarrow> int option \<Rightarrow> (instruction \<times> int option) list \<Rightarrow> timer_error + instruction list" where
  "third_pass video_duration prev_end [] = Inr []"
| "third_pass video_duration prev_end ((instr, raw) # rest) =
     (case raw of
        None \<Rightarrow> Inl TypeError
      | Some raw_start \<Rightarrow>
          (let start = (case prev_end of
                          Some pe \<Rightarrow> max raw_start pe
                        | None \<Rightarrow> max raw_start 0)
           in case (case rest of
                      [] \<Rightarrow> Inr video_duration
                    | (next_instr, next_raw) # rest' \<Rightarrow>
                        (case next_raw of
                           None \<Rightarrow> Inl TypeError
                         | Some next_start \<Rightarrow> Inr (max next_start (start + MIN_STEP_DURATION))))
              of
                Inl e \<Rightarrow> Inl e
              | Inr stop \<Rightarrow>
                  (let stop' = (if stop - start < MIN_STEP_DURATION
                                then min (start + MIN_STEP_DURATION) video_duration
                                else stop)
                   in case third_pass video_duration (Some stop') rest of
                        Inl e \<Rightarrow> Inl e
                      | Inr out \<Rightarrow>
                          Inr (instr\<lparr>predicted_time :=
                                       Some \<lparr>start_seconds = start, end_seconds = stop'\<rparr>\<rparr> # out))))"

definition step_of :: "instruction \<Rightarrow> int" where
  "step_of instr = (case step instr of Some s \<Rightarrow> s | None \<Rightarrow> 0)"

definition predict_step_times ::
  "(nat \<Rightarrow> nat \<Rightarrow> int \<Rightarrow> nat \<Rightarrow> int \<Rightarrow> int) \<Rightarrow> instruction list \<Rightarrow> int
   \<Rightarrow> timer_error + instruction list" where
  "predict_step_times interp instructions video_duration =
     (let raws = second_pass interp video_duration (map raw_start_of instructions)
      in third_pass video_duration None (sort_key (\<lambda>p. step_of (fst p)) (zip instructions raws)))"

text \<open>
  The raw starts after the second pass, in the order of the sorted instructions:
  element \<open>i\<close> is the \<open>_raw_start\<close> of the \<open>i\<close>-th step of the third pass.
\<close>

definition raw_starts_by_step ::
  "(nat \<Rightarrow> nat \<Rightarrow> int \<Rightarrow> nat \<Rightarrow> int \<Rightarrow> int) \<Rightarrow> instruction list \<Rightarrow> int \<Rightarrow> int option list" where
  "raw_starts_by_step interp instructions video_duration =
     map snd (sort_key (\<lambda>p. step_of (fst p))
                (zip instructions
                   (second_pass interp video_duration (map raw_start_of instructions))))"

text \<open>The predicted window of an instruction, read as the source reads it back.\<close>

definition window_start :: "instruction \<Rightarrow> int" where
  "window_start instr = (case predicted_time instr of Some w \<Rightarrow> start_seconds w | None \<Rightarrow> 0)"

definition window_end :: "instruction \<Rightarrow> int" where
  "window_end instr = (case predicted_time instr of Some w \<Rightarrow> end_seconds w | None \<Rightarrow> 0)"

section \<open>Verification: the caption deduplicator and transcript assembler\<close>

text \<open>\<open>split\<close> never returns the empty list, so its first and last element exist.\<close>

lemma split_on_not_Nil: "split_on sep s \<noteq> []"
  by (induction s) (auto split: list.splits)

lemma dedupe_step_untouched:
  assumes "untouched p s"
  shows "dedupe_step p s = ([p], s)"
proof -
  obtain c cs where t: "strip (caption_text s) = c # cs" "caption_text s = c # cs"
    using assms by (cases "caption_text s") (auto simp: untouched_def)
  have upd: "s\<lparr>caption_text := c # cs\<rparr> = s"
    using t by simp
  have fb: "fix_boundaries p s = (p, s)"
    using assms by (simp add: fix_boundaries_def untouched_def)
  show ?thesis
    using assms t unfolding dedupe_step_def
    by (simp add: untouched_def Let_def upd fb del: py_in.simps split_on.simps)
qed

lemma dedupe_loop_clean: "clean (p # subs) \<Longrightarrow> dedupe_loop p subs = p # subs"
  by (induction subs arbitrary: p) (simp_all add: dedupe_step_untouched)

lemma dedupe_clean_fixpoint: "clean subs \<Longrightarrow> dedupe_yt_captions subs = subs"
  by (cases subs) (simp_all add: dedupe_yt_captions_def dedupe_loop_clean)

lemma fix_boundaries_forward:
  assumes "fix_boundaries p s = (p', s')" "start_time p < start_time s" "forward p" "forward s"
  shows "start_time p' = start_time p \<and> forward p' \<and> start_time s' = start_time s \<and> forward s'"
  using assms by (auto simp: fix_boundaries_def forward_def Let_def split: if_splits)

lemma dedupe_step_forward:
  assumes "dedupe_step p s = (ys, q)" "start_time p < start_time s" "forward p" "forward s"
  shows "(\<forall>y\<in>set ys. start_time y = start_time p \<and> forward y)
         \<and> (start_time q = start_time p \<or> start_time q = start_time s) \<and> forward q"
proof -
  have fb: "\<And>t p' s'. fix_boundaries p (s\<lparr>caption_text := t\<rparr>) = (p', s') \<Longrightarrow>
     start_time p' = start_time p \<and> forward p' \<and> start_time s' = start_time s \<and> forward s'"
  proof -
    fix t p' s'
    assume "fix_boundaries p (s\<lparr>caption_text := t\<rparr>) = (p', s')"
    from fix_boundaries_forward [OF this] assms(2,3,4)
    show "start_time p' = start_time p \<and> forward p' \<and> start_time s' = start_time s \<and> forward s'"
      by (simp add: forward_def)
  qed
  have ext: "forward (p\<lparr>end_time := end_time s\<rparr>)"
    using assms(2,4) by (simp add: forward_def)
  have ext2: "\<And>t. forward (p\<lparr>end_time := end_time s, caption_text := t\<rparr>)"
    using assms(2,4) by (simp add: forward_def)
  show ?thesis
    using assms(1,3) ext ext2 unfolding dedupe_step_def Let_def
    by (auto split: list.splits if_splits prod.splits dest!: fb
             simp del: py_in.simps split_on.simps)
qed

lemma sorted_map_const: "\<forall>y\<in>set ys. f y = (c::nat) \<Longrightarrow> sorted (map f ys)"
  by (induction ys) auto

lemma dedupe_loop_forward:
  assumes "forward p" "\<forall>s\<in>set subs. start_time p < start_time s \<and> forward s"
          "sorted_wrt (<) (map start_time subs)"
  shows "(\<forall>y\<in>set (dedupe_loop p subs). forward y \<and> start_time p \<le> start_time y)
         \<and> sorted (map start_time (dedupe_loop p subs))"
  using assms
proof (induction subs arbitrary: p)
  case Nil
  then show ?case by simp
next
  case (Cons s subs)
  obtain ys q where step: "dedupe_step p s = (ys, q)" by (cases "dedupe_step p s")
  from Cons.prems have ps: "start_time p < start_time s" "forward s" by simp_all
  from dedupe_step_forward [OF step ps(1) Cons.prems(1) ps(2)]
  have ys: "\<forall>y\<in>set ys. start_time y = start_time p \<and> forward y"
    and q: "start_time q = start_time p \<or> start_time q = start_time s" "forward q"
    by simp_all
  have rest: "\<forall>s'\<in>set subs. start_time q < start_time s' \<and> forward s'"
    using q(1) Cons.prems(2,3) by auto
  have srt: "sorted_wrt (<) (map start_time subs)"
    using Cons.prems(3) by simp
  from Cons.IH [OF q(2) rest srt]
  have ih: "\<forall>y\<in>set (dedupe_loop q subs). forward y \<and> start_time q \<le> start_time y"
       "sorted (map start_time (dedupe_loop q subs))"
    by simp_all
  have pq: "start_time p \<le> start_time q"
    using q(1) ps(1) by auto
  show ?case
    using step ys ih pq sorted_map_const [of ys start_time "start_time p"]
    by (auto simp: sorted_append)
qed

lemma dedupe_forward:
  assumes "sorted_wrt (<) (map start_time subs)" "\<forall>s\<in>set subs. forward s"
  shows "(\<forall>y\<in>set (dedupe_yt_captions subs). forward y)
         \<and> sorted (map start_time (dedupe_yt_captions subs))"
proof (cases subs)
  case Nil
  then show ?thesis by (simp add: dedupe_yt_captions_def)
next
  case (Cons p rest)
  have "forward p" "\<forall>s\<in>set rest. start_time p < start_time s \<and> forward s"
       "sorted_wrt (<) (map start_time rest)"
    using assms Cons by auto
  from dedupe_loop_forward [OF this] show ?thesis
    using Cons by (simp add: dedupe_yt_captions_def)
qed

lemma assemble_segments:
  "snd (assemble prev result caps) =
     map (\<lambda>cap. \<lparr>startTime = start_time cap, endTime = end_time cap,
                  segment_text = current_text cap\<rparr>) caps"
  by (induction caps arbitrary: prev result) (simp_all add: Let_def case_prod_beta)

text \<open>
  C4. The near-zero-duration rule is meant to absorb a caption whose own duration
  is under 0.15 s and whose text the pending caption contains. The source subtracts
  the end from the start, so a caption of two seconds (1.0 s to 3.0 s) whose text
  the pending caption contains is absorbed too: the pending caption ends at 3.0 s
  and nothing else is yielded.
\<close>

theorem long_duplicate_absorbed:
  "dedupe_yt_captions
     [\<lparr>start_time = 0, end_time = 1000, caption_text = ''one two three four''\<rparr>,
      \<lparr>start_time = 1000, end_time = 3000, caption_text = ''two three four''\<rparr>]
   = [\<lparr>start_time = 0, end_time = 3000, caption_text = ''one two three four''\<rparr>]"
  by code_simp

text \<open>
  C5. The two cues 0.0 s to 0.5 s, "the quick", and 0.4 s to 1.2 s, "the quick brown
  fox", are not merged into one cue "the quick brown fox" from 0.0 s to 1.2 s.
\<close>

theorem merge_example_not_merged:
  "dedupe_yt_captions
     [\<lparr>start_time = 0, end_time = 500, caption_text = ''the quick''\<rparr>,
      \<lparr>start_time = 400, end_time = 1200, caption_text = ''the quick brown fox''\<rparr>]
   \<noteq> [\<lparr>start_time = 0, end_time = 1200, caption_text = ''the quick brown fox''\<rparr>]"
  by code_simp

text \<open>
  C5, amended. For these two cues the deduplicator yields both: "the quick" from
  0.0 s to 0.399 s (its end pulled back to one millisecond before the next start) and
  "the quick brown fox" from 0.4 s to 1.2 s; \<open>parse_captions\<close> returns the two
  segments and the transcript "the quick the quick brown fox".
\<close>

theorem merge_example_two_cues:
  "dedupe_yt_captions
     [\<lparr>start_time = 0, end_time = 500, caption_text = ''the quick''\<rparr>,
      \<lparr>start_time = 400, end_time = 1200, caption_text = ''the quick brown fox''\<rparr>]
   = [\<lparr>start_time = 0, end_time = 399, caption_text = ''the quick''\<rparr>,
      \<lparr>start_time = 400, end_time = 1200, caption_text = ''the quick brown fox''\<rparr>]
   \<and> parse_captions
       (from_captions
          [\<lparr>start_time = 0, end_time = 500, caption_text = ''the quick''\<rparr>,
           \<lparr>start_time = 400, end_time = 1200, caption_text = ''the quick brown fox''\<rparr>])
       ''vtt'' []
     = Inr (''the quick the quick brown fox'',
            [\<lparr>startTime = 0, endTime = 399, segment_text = ''the quick''\<rparr>,
             \<lparr>startTime = 400, endTime = 1200, segment_text = ''the quick brown fox''\<rparr>])"
  by code_simp

text \<open>
  C6. The deduplicator is not idempotent: on "go go" (0 s to 1 s) followed by the
  two lines "go go", "hi" (1 s to 2 s) the first pass yields "go go" and "hi", and a
  second pass appends the short "hi" to "go go".
\<close>

theorem dedupe_not_idempotent:
  "dedupe_yt_captions
     (dedupe_yt_captions
        [\<lparr>start_time = 0, end_time = 1000, caption_text = ''go go''\<rparr>,
         \<lparr>start_time = 1000, end_time = 2000, caption_text = ''go go\<newline>hi''\<rparr>])
   \<noteq> dedupe_yt_captions
        [\<lparr>start_time = 0, end_time = 1000, caption_text = ''go go''\<rparr>,
         \<lparr>start_time = 1000, end_time = 2000, caption_text = ''go go\<newline>hi''\<rparr>]"
  by code_simp

text \<open>
  C6, amended. Running the deduplicator again on its own output is a no-op whenever
  that output is clean: every caption of it after the first has trimmed, non-empty text
  of more than two words that the caption before does not contain and that does not
  start with the last line of the caption before, starts after the end of the caption
  before and ends after its own start.
\<close>

theorem dedupe_idempotent_on_clean:
  "clean (dedupe_yt_captions subs)
   \<Longrightarrow> dedupe_yt_captions (dedupe_yt_captions subs) = dedupe_yt_captions subs"
  by (rule dedupe_clean_fixpoint)

theorem dedupe_idempotent_on_clean_witness:
  "clean (dedupe_yt_captions
            [\<lparr>start_time = 0, end_time = 500, caption_text = ''the quick''\<rparr>,
             \<lparr>start_time = 400, end_time = 1200, caption_text = ''the quick brown fox''\<rparr>])
   \<and> dedupe_yt_captions
       (dedupe_yt_captions
          [\<lparr>start_time = 0, end_time = 500, caption_text = ''the quick''\<rparr>,
           \<lparr>start_time = 400, end_time = 1200, caption_text = ''the quick brown fox''\<rparr>])
     = [\<lparr>start_time = 0, end_time = 399, caption_text = ''the quick''\<rparr>,
        \<lparr>start_time = 400, end_time = 1200, caption_text = ''the quick brown fox''\<rparr>]"
proof -
  let ?subs = "[\<lparr>start_time = 0, end_time = 500, caption_text = ''the quick''\<rparr>,
                \<lparr>start_time = 400, end_time = 1200, caption_text = ''the quick brown fox''\<rparr>]"
  have out: "dedupe_yt_captions ?subs
             = [\<lparr>start_time = 0, end_time = 399, caption_text = ''the quick''\<rparr>,
                \<lparr>start_time = 400, end_time = 1200, caption_text = ''the quick brown fox''\<rparr>]"
    by code_simp
  have c: "clean (dedupe_yt_captions ?subs)"
    by code_simp
  from dedupe_idempotent_on_clean [OF c] out c show ?thesis
    by simp
qed

text \<open>
  C7. Two cues with the same start, 0.5 s to 1.0 s and 0.5 s to 2.0 s: the boundary
  correction pulls the end of the first to 0.499 s, before its own start, and the
  first segment has \<open>startTime > endTime\<close>. Two cues out of order, 2 s to 3 s
  followed by 0 s to 1 s: the segments keep the order of the cues, so their start
  times decrease.
\<close>

theorem segment_inverted:
  "parse_captions
     (from_captions
        [\<lparr>start_time = 500, end_time = 1000, caption_text = ''a b c''\<rparr>,
         \<lparr>start_time = 500, end_time = 2000, caption_text = ''d e f''\<rparr>])
     ''vtt'' []
   = Inr (''a b c d e f'',
          [\<lparr>startTime = 500, endTime = 499, segment_text = ''a b c''\<rparr>,
           \<lparr>startTime = 500, endTime = 2000, segment_text = ''d e f''\<rparr>])
   \<and> \<not> startTime \<lparr>startTime = 500, endTime = 499, segment_text = ''a b c''\<rparr>
        \<le> endTime \<lparr>startTime = 500, endTime = 499, segment_text = ''a b c''\<rparr>
   \<and> parse_captions
       (from_captions
          [\<lparr>start_time = 2000, end_time = 3000, caption_text = ''a b c''\<rparr>,
           \<lparr>start_time = 0, end_time = 1000, caption_text = ''d e f''\<rparr>])
       ''vtt'' []
     = Inr (''a b c d e f'',
            [\<lparr>startTime = 2000, endTime = 0, segment_text = ''a b c''\<rparr>,
             \<lparr>startTime = 0, endTime = 1000, segment_text = ''d e f''\<rparr>])
   \<and> \<not> sorted (map startTime
          [\<lparr>startTime = 2000, endTime = 0, segment_text = ''a b c''\<rparr>,
           \<lparr>startTime = 0, endTime = 1000, segment_text = ''d e f''\<rparr>])"
  by code_simp

text \<open>
  C7, amended. When the parsed cues have strictly increasing start times and none
  has its end before its start, \<open>parse_captions\<close> returns segments that all satisfy
  \<open>startTime \<le> endTime\<close> and are in non-decreasing \<open>startTime\<close> order.
\<close>

theorem segments_ordered:
  assumes "from_string content = Inr captions"
    and "sorted_wrt (<) (map start_time captions)"
    and "\<forall>c\<in>set captions. start_time c \<le> end_time c"
  shows "\<exists>result segments.
           parse_captions from_string ''vtt'' content = Inr (result, segments)
           \<and> (\<forall>s\<in>set segments. startTime s \<le> endTime s)
           \<and> sorted (map startTime segments)"
proof -
  let ?d = "dedupe_yt_captions captions"
  obtain result segments where a: "assemble None [] ?d = (result, segments)"
    by (cases "assemble None [] ?d")
  have segs: "segments = map (\<lambda>cap. \<lparr>startTime = start_time cap, endTime = end_time cap,
                  segment_text = current_text cap\<rparr>) ?d"
    using assemble_segments [of None "[]" ?d] a by simp
  have fw: "\<forall>y\<in>set ?d. forward y" and srt: "sorted (map start_time ?d)"
    using dedupe_forward [OF assms(2)] assms(3) by (simp_all add: forward_def)
  have "parse_captions from_string ''vtt'' content = Inr (collapse_spaces result, segments)"
    using assms(1) a by (simp add: parse_captions_def)
  moreover have "\<forall>s\<in>set segments. startTime s \<le> endTime s"
    using fw segs by (auto simp: forward_def)
  moreover have "sorted (map startTime segments)"
    using srt segs by (simp add: comp_def)
  ultimately show ?thesis by blast
qed

theorem segments_ordered_witness:
  "from_captions
     [\<lparr>start_time = 0, end_time = 500, caption_text = ''the quick''\<rparr>,
      \<lparr>start_time = 400, end_time = 1200, caption_text = ''the quick brown fox''\<rparr>] []
   = Inr [\<lparr>start_time = 0, end_time = 500, caption_text = ''the quick''\<rparr>,
          \<lparr>start_time = 400, end_time = 1200, caption_text = ''the quick brown fox''\<rparr>]
   \<and> sorted_wrt (<) (map start_time
        [\<lparr>start_time = 0, end_time = 500, caption_text = ''the quick''\<rparr>,
         \<lparr>start_time = 400, end_time = 1200, caption_text = ''the quick brown fox''\<rparr>])
   \<and> list_all (\<lambda>c. start_time c \<le> end_time c)
        [\<lparr>start_time = 0, end_time = 500, caption_text = ''the quick''\<rparr>,
         \<lparr>start_time = 400, end_time = 1200, caption_text = ''the quick brown fox''\<rparr>]
   \<and> (\<exists>result segments.
         parse_captions
           (from_captions
              [\<lparr>start_time = 0, end_time = 500, caption_text = ''the quick''\<rparr>,
               \<lparr>start_time = 400, end_time = 1200, caption_text = ''the quick brown fox''\<rparr>])
           ''vtt'' [] = Inr (result, segments)
         \<and> list_all (\<lambda>s. startTime s \<le> endTime s) segments
         \<and> sorted (map startTime segments))"
proof -
  let ?caps = "[\<lparr>start_time = 0, end_time = 500, caption_text = ''the quick''\<rparr>,
                \<lparr>start_time = 400, end_time = 1200, caption_text = ''the quick brown fox''\<rparr>]"
  have h1: "from_captions ?caps [] = Inr ?caps"
    by (simp add: from_captions_def)
  have h2: "sorted_wrt (<) (map start_time ?caps)"
    by simp
  have h3: "\<forall>c\<in>set ?caps. start_time c \<le> end_time c"
    by simp
  from segments_ordered [of "from_captions ?caps" "[]" ?caps, OF h1 h2 h3] h1 h2 h3
  show ?thesis
    by (simp add: list_all_iff)
qed

text \<open>
  C10. For every extension other than "vtt", \<open>parse_captions\<close> raises
  \<open>ValueError\<close>, whatever the content and whatever the parser would make of it:
  it returns no transcript text and no segments.
\<close>

theorem parse_captions_rejects_other_formats:
  "ext \<noteq> ''vtt''
   \<Longrightarrow> parse_captions from_string ext content
       = Inl (ValueError (''Unsupported caption format: '' @ ext))"
  by (simp add: parse_captions_def)

theorem parse_captions_rejects_other_formats_witness:
  "''srt'' \<noteq> ''vtt''
   \<and> parse_captions (from_captions []) ''srt'' ''WEBVTT''
     = Inl (ValueError ''Unsupported caption format: srt'')"
proof -
  have h: "''srt'' \<noteq> ''vtt''" by simp
  from parse_captions_rejects_other_formats [OF h, of "from_captions []" "''WEBVTT''"] h
  show ?thesis by simp
qed

section \<open>Verification: the step timer\<close>

lemma find_known_none:
  "find_known i prev known = (None, None) \<Longrightarrow> prev = None \<and> (\<forall>p\<in>set known. fst p = i)"
  by (induction i prev known rule: find_known.induct) (auto split: if_splits)

lemma known_times_of_set:
  "(i, t) \<in> set (known_times_of raws) \<longleftrightarrow> i < length raws \<and> raws ! i = Some t"
  by (auto simp: known_times_of_def in_set_enumerate_eq split: option.splits)

lemma fill_missing_known:
  assumes "known_times_of raws \<noteq> []" "i < length raws" "raws ! i = None"
  shows "fill_missing interp vd n (known_times_of raws) i \<noteq> None"
proof
  assume a: "fill_missing interp vd n (known_times_of raws) i = None"
  have "find_known i None (known_times_of raws) = (None, None)"
    using a unfolding fill_missing_def Let_def
    by (auto split: prod.splits option.splits)
  from find_known_none [OF this]
  have all: "\<forall>p\<in>set (known_times_of raws). fst p = i" by simp
  obtain j t where jt: "(j, t) \<in> set (known_times_of raws)"
    using assms(1) by (cases "known_times_of raws") auto
  with all have "j = i" by auto
  with jt assms(3) show False
    by (simp add: known_times_of_set)
qed

lemma length_second_pass: "length (second_pass interp vd raws) = length raws"
  by (simp add: second_pass_def Let_def)

lemma second_pass_known: "r \<in> set (second_pass interp vd raws) \<Longrightarrow> r \<noteq> None"
proof (cases "known_times_of raws = []")
  case True
  assume "r \<in> set (second_pass interp vd raws)"
  with True show ?thesis
    by (auto simp: second_pass_def Let_def)
next
  case False
  assume "r \<in> set (second_pass interp vd raws)"
  with False obtain i raw where ir: "(i, raw) \<in> set (enumerate 0 raws)"
    and r: "r = (case raw of Some t \<Rightarrow> Some t
                 | None \<Rightarrow> fill_missing interp vd (length raws) (known_times_of raws) i)"
    by (auto simp: second_pass_def Let_def)
  from ir have i: "i < length raws" "raws ! i = raw"
    by (simp_all add: in_set_enumerate_eq)
  show ?thesis
  proof (cases raw)
    case None
    with r i fill_missing_known [OF False i(1)] show ?thesis by simp
  next
    case (Some t)
    with r show ?thesis by simp
  qed
qed

lemma third_pass_props:
  assumes "\<forall>p\<in>set xs. snd p \<noteq> None"
  shows "\<exists>out. third_pass vd pe xs = Inr out \<and> length out = length xs
           \<and> map step_of out = map (\<lambda>p. step_of (fst p)) xs
           \<and> (\<forall>x\<in>set out. predicted_time x \<noteq> None)
           \<and> (xs \<noteq> [] \<longrightarrow> (case pe of Some e \<Rightarrow> e | None \<Rightarrow> 0) \<le> window_start (hd out))
           \<and> successively (\<lambda>a b. window_end a \<le> window_start b) out
           \<and> (xs \<noteq> [] \<longrightarrow> window_end (last out) = vd)
           \<and> (\<forall>x\<in>set (butlast out). 5 \<le> window_end x - window_start x)
           \<and> (\<forall>i<length out. \<exists>r. snd (xs ! i) = Some r
                  \<and> window_start (out ! i)
                      = max r (if i = 0 then (case pe of Some e \<Rightarrow> e | None \<Rightarrow> 0)
                               else window_end (out ! (i - 1))))"
  using assms
proof (induction xs arbitrary: pe)
  case Nil
  then show ?case by simp
next
  case (Cons p xs)
  obtain instr r where p: "p = (instr, Some r)"
    using Cons.prems by (cases p) auto
  define start where "start = (case pe of Some e \<Rightarrow> max r e | None \<Rightarrow> max r 0)"
  define stop where "stop = (case xs of [] \<Rightarrow> vd | q # qs \<Rightarrow> max (the (snd q)) (start + 5))"
  define stop' where "stop' = (if stop - start < 5 then min (start + 5) vd else stop)"
  define instr' where "instr' = instr\<lparr>predicted_time := Some \<lparr>start_seconds = start, end_seconds = stop'\<rparr>\<rparr>"
  from Cons.prems have "\<forall>p\<in>set xs. snd p \<noteq> None" by simp
  from Cons.IH [OF this, of "Some stop'"] obtain out where
    ih: "third_pass vd (Some stop') xs = Inr out \<and> length out = length xs
           \<and> map step_of out = map (\<lambda>p. step_of (fst p)) xs
           \<and> (\<forall>x\<in>set out. predicted_time x \<noteq> None)
           \<and> (xs \<noteq> [] \<longrightarrow> (case Some stop' of Some e \<Rightarrow> e | None \<Rightarrow> 0) \<le> window_start (hd out))
           \<and> successively (\<lambda>a b. window_end a \<le> window_start b) out
           \<and> (xs \<noteq> [] \<longrightarrow> window_end (last out) = vd)
           \<and> (\<forall>x\<in>set (butlast out). 5 \<le> window_end x - window_start x)
           \<and> (\<forall>i<length out. \<exists>r. snd (xs ! i) = Some r
                  \<and> window_start (out ! i)
                      = max r (if i = 0 then (case Some stop' of Some e \<Rightarrow> e | None \<Rightarrow> 0)
                               else window_end (out ! (i - 1))))"
    by blast
  then have out: "third_pass vd (Some stop') xs = Inr out" "length out = length xs"
      "map step_of out = map (\<lambda>p. step_of (fst p)) xs"
      "\<forall>x\<in>set out. predicted_time x \<noteq> None"
      "xs \<noteq> [] \<longrightarrow> stop' \<le> window_start (hd out)"
      "successively (\<lambda>a b. window_end a \<le> window_start b) out"
      "xs \<noteq> [] \<longrightarrow> window_end (last out) = vd"
      "\<forall>x\<in>set (butlast out). 5 \<le> window_end x - window_start x"
      "\<forall>i<length out. \<exists>r. snd (xs ! i) = Some r
          \<and> window_start (out ! i)
              = max r (if i = 0 then stop' else window_end (out ! (i - 1)))"
    unfolding option.case by blast+
  define T where "T = third_pass vd (Some stop') xs"
  have unfold: "third_pass vd pe (p # xs) =
      (case T of Inl e \<Rightarrow> Inl e | Inr out \<Rightarrow> Inr (instr' # out))"
  proof (cases xs)
    case Nil
    then show ?thesis
      by (simp add: T_def p start_def stop_def stop'_def instr'_def MIN_STEP_DURATION_def Let_def)
  next
    case (Cons q qs)
    obtain i2 r2 where q: "q = (i2, Some r2)"
      using \<open>\<forall>p\<in>set xs. snd p \<noteq> None\<close> Cons by (cases q) auto
    have st: "stop = max r2 (start + 5)"
      by (simp add: stop_def Cons q)
    have "third_pass vd pe ((instr, Some r) # (i2, Some r2) # qs) =
      (case third_pass vd (Some stop') ((i2, Some r2) # qs) of
         Inl e \<Rightarrow> Inl e | Inr out \<Rightarrow> Inr (instr' # out))"
      apply (subst third_pass.simps(2))
      apply (simp only: option.case list.case prod.case sum.case Let_def
                MIN_STEP_DURATION_def start_def [symmetric] st [symmetric]
                stop'_def [symmetric] instr'_def [symmetric])
      done
    then show ?thesis
      by (simp only: T_def Cons q p)
  qed
  have eq: "third_pass vd pe (p # xs) = Inr (instr' # out)"
    using unfold out(1) by (simp add: T_def)
  have ws: "window_start instr' = start" and we: "window_end instr' = stop'"
    by (simp_all add: instr'_def window_start_def window_end_def)
  have lb: "(case pe of Some e \<Rightarrow> e | None \<Rightarrow> 0) \<le> start"
    by (simp add: start_def split: option.splits)
  have dur: "xs \<noteq> [] \<Longrightarrow> 5 \<le> stop' - start"
    by (cases xs) (auto simp: stop_def stop'_def)
  have lst: "xs = [] \<Longrightarrow> stop' = vd"
    by (auto simp: stop_def stop'_def)
  have ne: "xs \<noteq> [] \<Longrightarrow> out \<noteq> []"
    using out(2) by auto
  have emp: "xs = [] \<Longrightarrow> out = []"
    using out(2) by auto
  have succ: "successively (\<lambda>a b. window_end a \<le> window_start b) (instr' # out)"
  proof (cases out)
    case Nil
    then show ?thesis by simp
  next
    case (Cons o1 os)
    then have "xs \<noteq> []" using out(2) by auto
    with out(5) Cons have "stop' \<le> window_start o1" by simp
    with out(6) Cons show ?thesis by (simp add: we)
  qed
  have bl: "\<forall>x\<in>set (butlast (instr' # out)). 5 \<le> window_end x - window_start x"
  proof (cases "xs = []")
    case True
    with emp show ?thesis by simp
  next
    case False
    with ne dur out(8) show ?thesis by (simp add: ws we)
  qed
  have la: "window_end (last (instr' # out)) = vd"
  proof (cases "xs = []")
    case True
    with emp lst show ?thesis by (simp add: we)
  next
    case False
    with ne out(7) show ?thesis by simp
  qed
  have len: "length (instr' # out) = length (p # xs)"
    using out(2) by simp
  have steps: "map step_of (instr' # out) = map (\<lambda>p. step_of (fst p)) (p # xs)"
    using out(3) by (simp add: p instr'_def step_of_def)
  have pt: "\<forall>x\<in>set (instr' # out). predicted_time x \<noteq> None"
    using out(4) by (simp add: instr'_def)
  have hd: "p # xs \<noteq> [] \<longrightarrow>
            (case pe of Some e \<Rightarrow> e | None \<Rightarrow> 0) \<le> window_start (hd (instr' # out))"
    using lb by (simp add: ws)
  have starts: "\<exists>r'. snd ((p # xs) ! i) = Some r'
          \<and> window_start ((instr' # out) ! i)
              = max r' (if i = 0 then (case pe of Some e \<Rightarrow> e | None \<Rightarrow> 0)
                        else window_end ((instr' # out) ! (i - 1)))"
    if "i < length (instr' # out)" for i
  proof (cases i)
    case 0
    then show ?thesis
      by (simp add: p ws start_def split: option.splits)
  next
    case (Suc j)
    with that have j: "j < length out" by simp
    from out(9) [rule_format, OF j] obtain r' where
      r': "snd (xs ! j) = Some r'"
        "window_start (out ! j) = max r' (if j = 0 then stop' else window_end (out ! (j - 1)))"
      by blast
    show ?thesis
    proof (cases j)
      case 0
      with r' Suc show ?thesis by (simp add: we)
    next
      case (Suc k)
      with r' \<open>i = Suc j\<close> show ?thesis by simp
    qed
  qed
  from eq len steps pt hd succ la bl starts show ?case
    by blast
qed


lemma predict_step_times_props:
  "\<exists>out. predict_step_times interp instructions vd = Inr out
         \<and> length out = length instructions
         \<and> sorted (map step_of out)
         \<and> (\<forall>x\<in>set out. predicted_time x \<noteq> None)
         \<and> (instructions \<noteq> [] \<longrightarrow> 0 \<le> window_start (hd out))
         \<and> successively (\<lambda>a b. window_end a \<le> window_start b) out
         \<and> (instructions \<noteq> [] \<longrightarrow> window_end (last out) = vd)
         \<and> (\<forall>x\<in>set (butlast out). 5 \<le> window_end x - window_start x)"
proof -
  define raws where "raws = second_pass interp vd (map raw_start_of instructions)"
  define zs where "zs = sort_key (\<lambda>p. step_of (fst p)) (zip instructions raws)"
  have len: "length zs = length instructions"
    by (simp add: zs_def raws_def length_second_pass)
  have known: "\<forall>p\<in>set zs. snd p \<noteq> None"
  proof
    fix p assume "p \<in> set zs"
    then have "p \<in> set (zip instructions raws)" by (simp add: zs_def)
    then have "snd p \<in> set raws" by (metis prod.collapse set_zip_rightD)
    then show "snd p \<noteq> None" unfolding raws_def by (rule second_pass_known)
  qed
  have srt: "sorted (map (\<lambda>p. step_of (fst p)) zs)"
    unfolding zs_def by (rule sorted_sort_key)
  have ne: "instructions \<noteq> [] \<longleftrightarrow> zs \<noteq> []"
    using len by auto
  have run: "predict_step_times interp instructions vd = third_pass vd None zs"
    by (simp add: predict_step_times_def Let_def zs_def raws_def)
  from third_pass_props [OF known, of vd None] show ?thesis
    unfolding run using len srt ne by auto
qed

lemma predict_step_times_starts:
  assumes "predict_step_times interp instructions vd = Inr out"
  shows "\<forall>i<length out. \<exists>r.
           raw_starts_by_step interp instructions vd ! i = Some r
           \<and> window_start (out ! i) = max r (if i = 0 then 0 else window_end (out ! (i - 1)))"
proof -
  define zs where "zs = sort_key (\<lambda>p. step_of (fst p))
      (zip instructions (second_pass interp vd (map raw_start_of instructions)))"
  have known: "\<forall>p\<in>set zs. snd p \<noteq> None"
  proof
    fix p assume "p \<in> set zs"
    then have "p \<in> set (zip instructions (second_pass interp vd (map raw_start_of instructions)))"
      by (simp add: zs_def)
    then have "snd p \<in> set (second_pass interp vd (map raw_start_of instructions))"
      by (metis prod.collapse set_zip_rightD)
    then show "snd p \<noteq> None" by (rule second_pass_known)
  qed
  have run: "predict_step_times interp instructions vd = third_pass vd None zs"
    by (simp add: predict_step_times_def Let_def zs_def)
  from third_pass_props [OF known, of vd None] obtain out' where
    o: "third_pass vd None zs = Inr out'" "length out' = length zs"
      "\<forall>i<length out'. \<exists>r. snd (zs ! i) = Some r
          \<and> window_start (out' ! i)
              = max r (if i = 0 then (case None of Some e \<Rightarrow> e | None \<Rightarrow> 0)
                       else window_end (out' ! (i - 1)))"
    by blast
  from o(1) assms run have same: "out' = out" by simp
  from o(2) same have len: "length out = length zs" by simp
  from o(3)
  have starts: "\<forall>i<length out. \<exists>r. snd (zs ! i) = Some r
          \<and> window_start (out ! i) = max r (if i = 0 then 0 else window_end (out ! (i - 1)))"
    unfolding same option.case .
  have "raw_starts_by_step interp instructions vd ! i = snd (zs ! i)" if "i < length out" for i
    using that len by (simp add: raw_starts_by_step_def zs_def)
  with starts show ?thesis by simp
qed

lemma single_step_no_references:
  assumes "video_references instr = []"
  shows "predict_step_times interp [instr] 0
         = Inr [instr\<lparr>predicted_time := Some \<lparr>start_seconds = 0, end_seconds = 0\<rparr>\<rparr>]"
  using assms
  by (simp add: predict_step_times_def second_pass_def known_times_of_def raw_start_of_def
        Let_def MIN_STEP_DURATION_def)

text \<open>
  C2. On every non-empty step list with a positive video duration the timer raises no
  error and returns the steps in step order, each with a predicted window; the start
  of each step is not before the end of the step before it, and the last step ends
  at the video duration.
\<close>

theorem step_windows_chained:
  assumes "instructions \<noteq> []" and "0 < video_duration"
  shows "\<exists>out. predict_step_times interp instructions video_duration = Inr out
           \<and> length out = length instructions
           \<and> sorted (map step_of out)
           \<and> (\<forall>x\<in>set out. predicted_time x \<noteq> None)
           \<and> (\<forall>i. Suc i < length out \<longrightarrow> window_end (out ! i) \<le> window_start (out ! Suc i))
           \<and> window_end (last out) = video_duration"
  using predict_step_times_props [of interp instructions video_duration] assms(1)
  by (auto simp: successively_conv_nth)

theorem step_windows_chained_witness:
  "[\<lparr>step = Some 1,
         video_references = [\<lparr>keyword = ''sear'', timestamp_seconds = 0, reference_context = []\<rparr>],
         instruction_keywords = \<lparr>ingredients = [], techniques = [''sear''], equipment = []\<rparr>,
         predicted_time = None\<rparr>,
      \<lparr>step = Some 2, video_references = [],
         instruction_keywords = \<lparr>ingredients = [], techniques = [], equipment = []\<rparr>,
         predicted_time = None\<rparr>,
      \<lparr>step = Some 3,
         video_references = [\<lparr>keyword = ''bake'', timestamp_seconds = 60, reference_context = []\<rparr>],
         instruction_keywords = \<lparr>ingredients = [], techniques = [''bake''], equipment = []\<rparr>,
         predicted_time = None\<rparr>] \<noteq> []
   \<and> (0::int) < 90
   \<and> (\<exists>out. predict_step_times interp_exact [\<lparr>step = Some 1,
         video_references = [\<lparr>keyword = ''sear'', timestamp_seconds = 0, reference_context = []\<rparr>],
         instruction_keywords = \<lparr>ingredients = [], techniques = [''sear''], equipment = []\<rparr>,
         predicted_time = None\<rparr>,
      \<lparr>step = Some 2, video_references = [],
         instruction_keywords = \<lparr>ingredients = [], techniques = [], equipment = []\<rparr>,
         predicted_time = None\<rparr>,
      \<lparr>step = Some 3,
         video_references = [\<lparr>keyword = ''bake'', timestamp_seconds = 60, reference_context = []\<rparr>],
         instruction_keywords = \<lparr>ingredients = [], techniques = [''bake''], equipment = []\<rparr>,
         predicted_time = None\<rparr>] 90 = Inr out
          \<and> length out = 3
          \<and> window_end (out ! 0) \<le> window_start (out ! 1)
          \<and> window_end (out ! 1) \<le> window_start (out ! 2)
          \<and> window_end (last out) = 90)"
proof -
  let ?steps = "[\<lparr>step = Some 1,
         video_references = [\<lparr>keyword = ''sear'', timestamp_seconds = 0, reference_context = []\<rparr>],
         instruction_keywords = \<lparr>ingredients = [], techniques = [''sear''], equipment = []\<rparr>,
         predicted_time = None\<rparr>,
      \<lparr>step = Some 2, video_references = [],
         instruction_keywords = \<lparr>ingredients = [], techniques = [], equipment = []\<rparr>,
         predicted_time = None\<rparr>,
      \<lparr>step = Some 3,
         video_references = [\<lparr>keyword = ''bake'', timestamp_seconds = 60, reference_context = []\<rparr>],
         instruction_keywords = \<lparr>ingredients = [], techniques = [''bake''], equipment = []\<rparr>,
         predicted_time = None\<rparr>]"
  have h1: "?steps \<noteq> []" by simp
  have h2: "(0::int) < 90" by simp
  from step_windows_chained [OF h1 h2, of interp_exact] obtain out where
    out: "predict_step_times interp_exact ?steps 90 = Inr out"
      "length out = length ?steps"
      "\<forall>i. Suc i < length out \<longrightarrow> window_end (out ! i) \<le> window_start (out ! Suc i)"
      "window_end (last out) = 90"
    by blast
  from out(2) have len: "length out = 3" by simp
  from out(3) len have "window_end (out ! 0) \<le> window_start (out ! Suc 0)"
    by simp
  moreover from out(3) [rule_format, of 1] len
  have "window_end (out ! 1) \<le> window_start (out ! 2)"
    by (simp add: numeral_2_eq_2)
  ultimately show ?thesis
    using h1 h2 out(1,4) len by auto
qed

text \<open>
  C3. On every non-empty step list the timer returns a predicted window for every
  step. Every step starts at its raw start or at the end of the step before it (0 for
  the first step), whichever is later. Every step but the last gets a window of at
  least 5 seconds. The last step ends at the video duration, so every window is at
  least 5 seconds long unless it is the last one and the video duration is less
  than 5 seconds after its start.
\<close>

theorem minimum_step_duration:
  assumes "instructions \<noteq> []"
  shows "\<exists>out. predict_step_times interp instructions video_duration = Inr out
           \<and> length out = length instructions
           \<and> (\<forall>x\<in>set out. predicted_time x \<noteq> None)
           \<and> (\<forall>i<length out. \<exists>r.
                 raw_starts_by_step interp instructions video_duration ! i = Some r
                 \<and> window_start (out ! i)
                     = max r (if i = 0 then 0 else window_end (out ! (i - 1))))
           \<and> (\<forall>i. Suc i < length out \<longrightarrow> 5 \<le> window_end (out ! i) - window_start (out ! i))
           \<and> window_end (last out) = video_duration
           \<and> (\<forall>i<length out.
                 5 \<le> window_end (out ! i) - window_start (out ! i)
                 \<or> (window_end (out ! i) = video_duration
                    \<and> video_duration < window_start (out ! i) + 5))"
proof -
  from predict_step_times_props [of interp instructions video_duration] assms
  obtain out where out: "predict_step_times interp instructions video_duration = Inr out"
      "length out = length instructions"
      "\<forall>x\<in>set out. predicted_time x \<noteq> None"
      "window_end (last out) = video_duration"
      "\<forall>x\<in>set (butlast out). 5 \<le> window_end x - window_start x"
    by auto
  from predict_step_times_starts [OF out(1)]
  have starts: "\<forall>i<length out. \<exists>r.
                 raw_starts_by_step interp instructions video_duration ! i = Some r
                 \<and> window_start (out ! i)
                     = max r (if i = 0 then 0 else window_end (out ! (i - 1)))" .
  have early: "5 \<le> window_end (out ! i) - window_start (out ! i)" if "Suc i < length out" for i
  proof -
    from that have "out ! i \<in> set (butlast out)"
      by (metis length_butlast less_diff_conv nth_butlast nth_mem Suc_eq_plus1)
    with out(5) show ?thesis by simp
  qed
  have "5 \<le> window_end (out ! i) - window_start (out ! i)
        \<or> (window_end (out ! i) = video_duration \<and> video_duration < window_start (out ! i) + 5)"
    if i: "i < length out" for i
  proof (cases "Suc i < length out")
    case True
    with early show ?thesis by simp
  next
    case False
    with i have "out ! i = last out"
      by (metis Suc_lessI diff_Suc_1 last_conv_nth length_0_conv not_less_zero)
    with out(4) show ?thesis by auto
  qed
  with out(1,2,3,4) starts early show ?thesis by blast
qed

theorem minimum_step_duration_witness:
  "[\<lparr>step = Some 1,
         video_references = [\<lparr>keyword = ''sear'', timestamp_seconds = 0, reference_context = []\<rparr>],
         instruction_keywords = \<lparr>ingredients = [], techniques = [''sear''], equipment = []\<rparr>,
         predicted_time = None\<rparr>,
      \<lparr>step = Some 2, video_references = [],
         instruction_keywords = \<lparr>ingredients = [], techniques = [], equipment = []\<rparr>,
         predicted_time = None\<rparr>,
      \<lparr>step = Some 3,
         video_references = [\<lparr>keyword = ''bake'', timestamp_seconds = 60, reference_context = []\<rparr>],
         instruction_keywords = \<lparr>ingredients = [], techniques = [''bake''], equipment = []\<rparr>,
         predicted_time = None\<rparr>] \<noteq> []
   \<and> (\<exists>out. predict_step_times interp_exact [\<lparr>step = Some 1,
         video_references = [\<lparr>keyword = ''sear'', timestamp_seconds = 0, reference_context = []\<rparr>],
         instruction_keywords = \<lparr>ingredients = [], techniques = [''sear''], equipment = []\<rparr>,
         predicted_time = None\<rparr>,
      \<lparr>step = Some 2, video_references = [],
         instruction_keywords = \<lparr>ingredients = [], techniques = [], equipment = []\<rparr>,
         predicted_time = None\<rparr>,
      \<lparr>step = Some 3,
         video_references = [\<lparr>keyword = ''bake'', timestamp_seconds = 60, reference_context = []\<rparr>],
         instruction_keywords = \<lparr>ingredients = [], techniques = [''bake''], equipment = []\<rparr>,
         predicted_time = None\<rparr>] 90 = Inr out
          \<and> length out = 3
          \<and> 5 \<le> window_end (out ! 0) - window_start (out ! 0)
          \<and> 5 \<le> window_end (out ! 1) - window_start (out ! 1)
          \<and> window_end (last out) = 90)"
proof -
  let ?steps = "[\<lparr>step = Some 1,
         video_references = [\<lparr>keyword = ''sear'', timestamp_seconds = 0, reference_context = []\<rparr>],
         instruction_keywords = \<lparr>ingredients = [], techniques = [''sear''], equipment = []\<rparr>,
         predicted_time = None\<rparr>,
      \<lparr>step = Some 2, video_references = [],
         instruction_keywords = \<lparr>ingredients = [], techniques = [], equipment = []\<rparr>,
         predicted_time = None\<rparr>,
      \<lparr>step = Some 3,
         video_references = [\<lparr>keyword = ''bake'', timestamp_seconds = 60, reference_context = []\<rparr>],
         instruction_keywords = \<lparr>ingredients = [], techniques = [''bake''], equipment = []\<rparr>,
         predicted_time = None\<rparr>]"
  have h1: "?steps \<noteq> []" by simp
  from minimum_step_duration [OF h1, of interp_exact 90] obtain out where
    out: "predict_step_times interp_exact ?steps 90 = Inr out"
      "length out = length ?steps"
      "\<forall>i. Suc i < length out \<longrightarrow> 5 \<le> window_end (out ! i) - window_start (out ! i)"
      "window_end (last out) = 90"
    by blast
  from out(2) have len: "length out = 3" by simp
  from out(3) [rule_format, of 0] len
  have w0: "5 \<le> window_end (out ! 0) - window_start (out ! 0)"
    by simp
  from out(3) [rule_format, of 1] len
  have w1: "5 \<le> window_end (out ! 1) - window_start (out ! 1)"
    by simp
  from h1 out(1,4) len w0 w1 show ?thesis by blast
qed

text \<open>
  C8. With a video duration of 0 and two steps without keyword matches, the windows
  are 0 to 5 and 5 to 0, not 0 to 0.
\<close>

theorem zero_duration_not_degenerate:
  "predict_step_times interp_exact
     [\<lparr>step = Some 1, video_references = [],
         instruction_keywords = \<lparr>ingredients = [], techniques = [], equipment = []\<rparr>,
         predicted_time = None\<rparr>,
      \<lparr>step = Some 2, video_references = [],
         instruction_keywords = \<lparr>ingredients = [], techniques = [], equipment = []\<rparr>,
         predicted_time = None\<rparr>] 0
   = Inr [\<lparr>step = Some 1, video_references = [],
         instruction_keywords = \<lparr>ingredients = [], techniques = [], equipment = []\<rparr>,
         predicted_time = Some \<lparr>start_seconds = 0, end_seconds = 5\<rparr>\<rparr>,
      \<lparr>step = Some 2, video_references = [],
         instruction_keywords = \<lparr>ingredients = [], techniques = [], equipment = []\<rparr>,
         predicted_time = Some \<lparr>start_seconds = 5, end_seconds = 0\<rparr>\<rparr>]"
  by code_simp

text \<open>
  C8, amended. On every non-empty step list with a video duration of 0 or less the
  timer raises no error and gives every step a predicted window; the last window ends
  at the video duration and every window before it is at least 5 seconds long. A
  single step without keyword matches, with a video duration of 0, gets the window
  0 to 0.
\<close>

theorem nonpositive_duration:
  assumes "instructions \<noteq> []" and "video_duration \<le> 0"
  shows "\<exists>out. predict_step_times interp instructions video_duration = Inr out
           \<and> length out = length instructions
           \<and> (\<forall>x\<in>set out. predicted_time x \<noteq> None)
           \<and> window_end (last out) = video_duration
           \<and> (\<forall>i. Suc i < length out \<longrightarrow> 5 \<le> window_end (out ! i) - window_start (out ! i))
           \<and> (length instructions = 1 \<and> video_references (hd instructions) = []
                \<and> video_duration = 0
               \<longrightarrow> predicted_time (hd out) = Some \<lparr>start_seconds = 0, end_seconds = 0\<rparr>)"
proof -
  from predict_step_times_props [of interp instructions video_duration] assms(1)
  obtain out where out: "predict_step_times interp instructions video_duration = Inr out"
      "length out = length instructions"
      "\<forall>x\<in>set out. predicted_time x \<noteq> None"
      "window_end (last out) = video_duration"
      "\<forall>x\<in>set (butlast out). 5 \<le> window_end x - window_start x"
    by auto
  have early: "5 \<le> window_end (out ! i) - window_start (out ! i)" if "Suc i < length out" for i
  proof -
    from that have "out ! i \<in> set (butlast out)"
      by (metis length_butlast less_diff_conv nth_butlast nth_mem Suc_eq_plus1)
    with out(5) show ?thesis by simp
  qed
  have single: "predicted_time (hd out) = Some \<lparr>start_seconds = 0, end_seconds = 0\<rparr>"
    if "length instructions = 1" "video_references (hd instructions) = []" "video_duration = 0"
  proof -
    from that(1) obtain instr where i: "instructions = [instr]"
      by (cases instructions) auto
    with that(2) have "video_references instr = []" by simp
    from single_step_no_references [OF this, of interp] out(1) i that(3)
    show ?thesis by auto
  qed
  from out(1,2,3,4) early single show ?thesis by blast
qed

theorem nonpositive_duration_witness:
  "[\<lparr>step = Some 1, video_references = [],
         instruction_keywords = \<lparr>ingredients = [], techniques = [], equipment = []\<rparr>,
         predicted_time = None\<rparr>,
      \<lparr>step = Some 2, video_references = [],
         instruction_keywords = \<lparr>ingredients = [], techniques = [], equipment = []\<rparr>,
         predicted_time = None\<rparr>] \<noteq> []
   \<and> (0::int) \<le> 0
   \<and> (\<exists>out. predict_step_times interp_exact [\<lparr>step = Some 1, video_references = [],
         instruction_keywords = \<lparr>ingredients = [], techniques = [], equipment = []\<rparr>,
         predicted_time = None\<rparr>,
      \<lparr>step = Some 2, video_references = [],
         instruction_keywords = \<lparr>ingredients = [], techniques = [], equipment = []\<rparr>,
         predicted_time = None\<rparr>] 0 = Inr out
          \<and> length out = 2
          \<and> window_end (last out) = 0
          \<and> 5 \<le> window_end (out ! 0) - window_start (out ! 0))"
proof -
  let ?steps = "[\<lparr>step = Some 1, video_references = [],
         instruction_keywords = \<lparr>ingredients = [], techniques = [], equipment = []\<rparr>,
         predicted_time = None\<rparr>,
      \<lparr>step = Some 2, video_references = [],
         instruction_keywords = \<lparr>ingredients = [], techniques = [], equipment = []\<rparr>,
         predicted_time = None\<rparr>]"
  have h1: "?steps \<noteq> []" by simp
  have h2: "(0::int) \<le> 0" by simp
  from nonpositive_duration [OF h1 h2, of interp_exact] obtain out where
    out: "predict_step_times interp_exact ?steps 0 = Inr out"
      "length out = length ?steps"
      "window_end (last out) = 0"
      "\<forall>i. Suc i < length out \<longrightarrow> 5 \<le> window_end (out ! i) - window_start (out ! i)"
    by blast
  from out(2) have len: "length out = 2" by simp
  from out(4) len have "5 \<le> window_end (out ! 0) - window_start (out ! 0)"
    by simp
  with h1 h2 out(1,3) len show ?thesis by blast
qed

section \<open>Verification: the cue parser and keyword matcher\<close>

lemma parse_lines_no_timestamp:
  "\<forall>line\<in>set ls. timestamp_match (strip line) = None \<Longrightarrow> parse_lines stemWords ls = []"
  by (induction ls) simp_all

text \<open>
  C1. \<open>parse_vtt_cues\<close> parses a content without a timestamp line to the empty
  list of cues; it raises no error.
\<close>

theorem empty_cues_returned: "parse_vtt_cues id ''no timestamps here'' = []"
  by code_simp

text \<open>
  C1, amended. For every content none of whose lines (trimmed) matches the timestamp
  line pattern, \<open>parse_vtt_cues\<close>, the cue parser of the keyword matcher, raises no
  error and returns the empty list of cues. (In \<open>parse_captions\<close> the content is
  parsed by the webvtt library, which is outside this statement.)
\<close>

theorem no_timestamp_no_cues:
  "\<forall>line\<in>set (split_on newline vtt_content). timestamp_match (strip line) = None
   \<Longrightarrow> parse_vtt_cues stemWords vtt_content = []"
  by (simp add: parse_vtt_cues_def parse_lines_no_timestamp)

theorem no_timestamp_no_cues_witness:
  "list_all (\<lambda>line. timestamp_match (strip line) = None) (split_on newline ''WEBVTT\<newline>\<newline>hello world'')
   \<and> parse_vtt_cues id ''WEBVTT\<newline>\<newline>hello world'' = []"
proof -
  have h: "\<forall>line\<in>set (split_on newline ''WEBVTT\<newline>\<newline>hello world''). timestamp_match (strip line) = None"
    by code_simp
  from no_timestamp_no_cues [OF h, of id] h show ?thesis
    by (simp add: list_all_iff)
qed

text \<open>A content with two timestamp lines gives two cues, tags removed.\<close>

lemma parse_example:
  "parse_vtt_cues id
     ''WEBVTT\<newline>\<newline>00:00:10.000 --> 00:00:11.000\<newline>add the salt now\<newline>\<newline>00:00:11.500 --> 00:00:12.000\<newline>more <c>salt</c> here\<newline>''
   = [\<lparr>start_millis = 10000, cue_text = ''add the salt now'', normalized = ''add the salt now''\<rparr>,
      \<lparr>start_millis = 11500, cue_text = ''more salt here'', normalized = ''more salt here''\<rparr>]"
  by (simp add: parse_vtt_cues_def strip_def py_isspace_def timestamp_match_def match_timestamp_def
       is_timestamp_def py_isdigit_def is_text_line_def cue_of_def start_millis_of_def digit_value_def
       split_ws_def normalize_text_def lower_def lower_char_def py_isword_def Let_def)

lemma retained_hits_append:
  "retained_hits seen (xs @ ys)
   = retained_hits seen xs @ retained_hits (seen @ retained_hits seen xs) ys"
  by (induction xs arbitrary: seen) simp_all

lemma visit_cue_effect:
  "map timestamp_seconds (matches (visit_cue stemWords ratio partial_ratio th cues kw i st))
     = map timestamp_seconds (matches st)
       @ retained_hits (seen_for st (lower kw))
           (if keyword_found ratio partial_ratio th (stem_keyword stemWords kw) (cues ! i)
            then [int (start_millis (cues ! i) div 1000)] else [])"
  "seen_for (visit_cue stemWords ratio partial_ratio th cues kw i st) (lower kw)
     = seen_for st (lower kw)
       @ retained_hits (seen_for st (lower kw))
           (if keyword_found ratio partial_ratio th (stem_keyword stemWords kw) (cues ! i)
            then [int (start_millis (cues ! i) div 1000)] else [])"
  by (auto simp: visit_cue_def Let_def seen_for_def is_duplicate_def list_ex_iff
        split: option.splits)

lemma visit_cue_pairs:
  "map (\<lambda>m. (keyword m, timestamp_seconds m))
     (matches (visit_cue stemWords ratio partial_ratio th cues kw i st))
     = map (\<lambda>m. (keyword m, timestamp_seconds m)) (matches st)
       @ map (Pair kw) (retained_hits (seen_for st (lower kw))
           (if keyword_found ratio partial_ratio th (stem_keyword stemWords kw) (cues ! i)
            then [int (start_millis (cues ! i) div 1000)] else []))"
  by (auto simp: visit_cue_def Let_def seen_for_def is_duplicate_def list_ex_iff
        split: option.splits)

lemma visit_cue_frame:
  "k \<noteq> lower kw \<Longrightarrow>
   seen_for (visit_cue stemWords ratio partial_ratio th cues kw i st) k = seen_for st k"
  by (simp add: visit_cue_def Let_def seen_for_def)

lemma scan_cues_pairs:
  assumes "m \<le> length cues"
  shows "map (\<lambda>m. (keyword m, timestamp_seconds m))
           (matches (fold (visit_cue stemWords ratio partial_ratio th cues kw) [0..<m] st))
         = map (\<lambda>m. (keyword m, timestamp_seconds m)) (matches st)
           @ map (Pair kw) (retained_hits (seen_for st (lower kw))
               (raw_hits stemWords ratio partial_ratio th (take m cues) kw))
         \<and> seen_for (fold (visit_cue stemWords ratio partial_ratio th cues kw) [0..<m] st) (lower kw)
           = seen_for st (lower kw)
             @ retained_hits (seen_for st (lower kw))
                 (raw_hits stemWords ratio partial_ratio th (take m cues) kw)
         \<and> (\<forall>k. k \<noteq> lower kw \<longrightarrow>
               seen_for (fold (visit_cue stemWords ratio partial_ratio th cues kw) [0..<m] st) k
               = seen_for st k)"
  using assms
proof (induction m)
  case 0
  then show ?case by (simp add: raw_hits_def)
next
  case (Suc m)
  let ?f = "visit_cue stemWords ratio partial_ratio th cues kw"
  let ?s = "fold ?f [0..<m] st"
  let ?prev = "raw_hits stemWords ratio partial_ratio th (take m cues) kw"
  let ?hit = "(if keyword_found ratio partial_ratio th (stem_keyword stemWords kw) (cues ! m)
               then [int (start_millis (cues ! m) div 1000)] else [])"
  from Suc.prems have m: "m < length cues" by simp
  from Suc.IH m have ih:
    "map (\<lambda>m. (keyword m, timestamp_seconds m)) (matches ?s)
       = map (\<lambda>m. (keyword m, timestamp_seconds m)) (matches st)
         @ map (Pair kw) (retained_hits (seen_for st (lower kw)) ?prev)"
    "seen_for ?s (lower kw) = seen_for st (lower kw) @ retained_hits (seen_for st (lower kw)) ?prev"
    "\<forall>k. k \<noteq> lower kw \<longrightarrow> seen_for ?s k = seen_for st k"
    by simp_all
  have hits: "raw_hits stemWords ratio partial_ratio th (take (Suc m) cues) kw = ?prev @ ?hit"
    using m by (simp add: raw_hits_def take_Suc_conv_app_nth)
  have run: "fold ?f [0..<Suc m] st = ?f m ?s"
    by simp
  show ?case
    unfolding run hits retained_hits_append
    using visit_cue_pairs [of stemWords ratio partial_ratio th cues kw m ?s]
      visit_cue_effect(2) [of stemWords ratio partial_ratio th cues kw m ?s]
      visit_cue_frame [of _ kw stemWords ratio partial_ratio th cues m ?s] ih
    by simp
qed

lemma search_keyword_effect:
  "map (\<lambda>m. (keyword m, timestamp_seconds m))
     (matches (search_keyword stemWords ratio partial_ratio th cues kw st))
   = map (\<lambda>m. (keyword m, timestamp_seconds m)) (matches st)
     @ (if lower kw \<in> STOPWORDS then []
        else map (Pair kw) (retained_hits (seen_for st (lower kw))
               (raw_hits stemWords ratio partial_ratio th cues kw)))"
  "seen_for (search_keyword stemWords ratio partial_ratio th cues kw st)
   = (if lower kw \<in> STOPWORDS then seen_for st
      else (seen_for st)(lower kw := seen_for st (lower kw)
              @ retained_hits (seen_for st (lower kw))
                  (raw_hits stemWords ratio partial_ratio th cues kw)))"
proof -
  let ?st0 = "(if seen_timestamps st (lower kw) = None
               then st\<lparr>seen_timestamps := (seen_timestamps st)(lower kw \<mapsto> [])\<rparr> else st)"
  have s0: "seen_for ?st0 = seen_for st" "matches ?st0 = matches st"
    by (auto simp: seen_for_def fun_eq_iff)
  have run: "lower kw \<notin> STOPWORDS \<Longrightarrow>
        search_keyword stemWords ratio partial_ratio th cues kw st
        = fold (visit_cue stemWords ratio partial_ratio th cues kw) [0..<length cues] ?st0"
    by (simp add: search_keyword_def Let_def)
  note scan = scan_cues_pairs [of "length cues" cues stemWords ratio partial_ratio th kw ?st0]
  show "map (\<lambda>m. (keyword m, timestamp_seconds m))
     (matches (search_keyword stemWords ratio partial_ratio th cues kw st))
   = map (\<lambda>m. (keyword m, timestamp_seconds m)) (matches st)
     @ (if lower kw \<in> STOPWORDS then []
        else map (Pair kw) (retained_hits (seen_for st (lower kw))
               (raw_hits stemWords ratio partial_ratio th cues kw)))"
  proof (cases "lower kw \<in> STOPWORDS")
    case True
    then show ?thesis by (simp add: search_keyword_def)
  next
    case False
    with run scan s0 show ?thesis by simp
  qed
  show "seen_for (search_keyword stemWords ratio partial_ratio th cues kw st)
   = (if lower kw \<in> STOPWORDS then seen_for st
      else (seen_for st)(lower kw := seen_for st (lower kw)
              @ retained_hits (seen_for st (lower kw))
                  (raw_hits stemWords ratio partial_ratio th cues kw)))"
  proof (cases "lower kw \<in> STOPWORDS")
    case True
    then show ?thesis by (simp add: search_keyword_def)
  next
    case False
    with run scan s0 show ?thesis by (auto simp: fun_eq_iff)
  qed
qed

lemma search_all_keywords:
  "map (\<lambda>m. (keyword m, timestamp_seconds m))
     (matches (fold (search_keyword stemWords ratio partial_ratio th cues) kwl st))
   = map (\<lambda>m. (keyword m, timestamp_seconds m)) (matches st)
     @ retained_matches stemWords ratio partial_ratio th cues kwl (seen_for st)"
proof (induction kwl arbitrary: st)
  case Nil
  then show ?case by simp
next
  case (Cons kw kws)
  show ?case
    using Cons.IH [of "search_keyword stemWords ratio partial_ratio th cues kw st"]
      search_keyword_effect [of stemWords ratio partial_ratio th cues kw st]
    by (simp add: Let_def)
qed

lemma map_insort_key:
  "map f (insort_key (\<lambda>x. g (f x)) a xs) = insort_key g (f a) (map f xs)"
  by (induction xs) simp_all

lemma map_sort_key:
  "map f (sort_key (\<lambda>x. g (f x)) xs) = sort_key g (map f xs)"
  by (induction xs) (simp_all add: map_insort_key)

text \<open>
  C9. The matches of the whole search are, keyword and timestamp, the raw hits that
  the spec's rule retains, sorted by timestamp: the keywords are gone through in
  order, a hit is discarded if and only if it is within 3 seconds (inclusive) of a
  timestamp retained before it for a keyword with the same lower-cased form (the
  original keyword, not its stem), and hits of other keywords play no part. In
  particular, of raw hits at 10 s and 11 s only the first is retained, and raw hits
  at 10 s and 14 s are both retained.
\<close>

theorem temporal_dedup:
  "map (\<lambda>m. (keyword m, timestamp_seconds m))
     (search_vtt_for_keywords stemWords ratio partial_ratio vtt_content keywords th)
   = sort_key snd
       (retained_matches stemWords ratio partial_ratio th
          (parse_vtt_cues stemWords vtt_content) keywords (\<lambda>k. []))
   \<and> retained_hits [] [10, 11] = [10]
   \<and> retained_hits [] [10, 14] = [10, 14]"
proof -
  let ?init = "\<lparr>seen_timestamps = Map.empty, matches = []\<rparr>"
  let ?cues = "parse_vtt_cues stemWords vtt_content"
  let ?ms = "matches (fold (search_keyword stemWords ratio partial_ratio th ?cues) keywords ?init)"
  have "seen_for ?init = (\<lambda>k. [])"
    by (simp add: seen_for_def fun_eq_iff)
  with search_all_keywords [of stemWords ratio partial_ratio th ?cues "keywords" ?init]
  have pairs: "map (\<lambda>m. (keyword m, timestamp_seconds m)) ?ms
        = retained_matches stemWords ratio partial_ratio th ?cues keywords (\<lambda>k. [])"
    by simp
  have run: "search_vtt_for_keywords stemWords ratio partial_ratio vtt_content keywords th
        = sort_key timestamp_seconds ?ms"
    by (simp add: search_vtt_for_keywords_def Let_def)
  have "map (\<lambda>m. (keyword m, timestamp_seconds m)) (sort_key timestamp_seconds ?ms)
        = sort_key snd (map (\<lambda>m. (keyword m, timestamp_seconds m)) ?ms)"
    using map_sort_key [of "\<lambda>m. (keyword m, timestamp_seconds m)" snd ?ms] by simp
  with pairs run show ?thesis by simp
qed

lemma parse_salt_pepper_near:
  "parse_vtt_cues id ''WEBVTT\<newline>\<newline>00:00:10.000 --> 00:00:11.000\<newline>add the salt now\<newline>\<newline>00:00:11.500 --> 00:00:12.000\<newline>more <c>salt</c> and pepper\<newline>''
   = [\<lparr>start_millis = 10000, cue_text = ''add the salt now'', normalized = ''add the salt now''\<rparr>,
      \<lparr>start_millis = 11500, cue_text = ''more salt and pepper'', normalized = ''more salt and pepper''\<rparr>]"
  by (simp add: parse_vtt_cues_def strip_def py_isspace_def timestamp_match_def match_timestamp_def
       is_timestamp_def py_isdigit_def is_text_line_def cue_of_def start_millis_of_def digit_value_def
       split_ws_def normalize_text_def lower_def lower_char_def py_isword_def Let_def)

lemma parse_salt_pepper_far:
  "parse_vtt_cues id ''WEBVTT\<newline>\<newline>00:00:10.000 --> 00:00:11.000\<newline>add the salt now\<newline>\<newline>00:00:14.500 --> 00:00:15.000\<newline>more <c>salt</c> and pepper\<newline>''
   = [\<lparr>start_millis = 10000, cue_text = ''add the salt now'', normalized = ''add the salt now''\<rparr>,
      \<lparr>start_millis = 14500, cue_text = ''more salt and pepper'', normalized = ''more salt and pepper''\<rparr>]"
  by (simp add: parse_vtt_cues_def strip_def py_isspace_def timestamp_match_def match_timestamp_def
       is_timestamp_def py_isdigit_def is_text_line_def cue_of_def start_millis_of_def digit_value_def
       split_ws_def normalize_text_def lower_def lower_char_def py_isword_def Let_def)

lemma retained_salt_pepper_near:
  "retained_matches id no_similarity no_similarity 80
     [\<lparr>start_millis = 10000, cue_text = ''add the salt now'', normalized = ''add the salt now''\<rparr>,
      \<lparr>start_millis = 11500, cue_text = ''more salt and pepper'', normalized = ''more salt and pepper''\<rparr>]
     [''salt'', ''pepper''] (\<lambda>k. [])
   = [(''salt'', 10), (''pepper'', 11)]"
  by (simp add: raw_hits_def keyword_found_def stem_keyword_def lower_def lower_char_def
       split_ws_def py_isspace_def no_similarity_def STOPWORDS_def Let_def)

lemma retained_salt_pepper_far:
  "retained_matches id no_similarity no_similarity 80
     [\<lparr>start_millis = 10000, cue_text = ''add the salt now'', normalized = ''add the salt now''\<rparr>,
      \<lparr>start_millis = 14500, cue_text = ''more salt and pepper'', normalized = ''more salt and pepper''\<rparr>]
     [''salt'', ''pepper''] (\<lambda>k. [])
   = [(''salt'', 10), (''salt'', 14), (''pepper'', 14)]"
  by (simp add: raw_hits_def keyword_found_def stem_keyword_def lower_def lower_char_def
       split_ws_def py_isspace_def no_similarity_def STOPWORDS_def Let_def)

theorem temporal_dedup_witness:
  "map (\<lambda>m. (keyword m, timestamp_seconds m))
     (search_vtt_for_keywords id no_similarity no_similarity
        ''WEBVTT\<newline>\<newline>00:00:10.000 --> 00:00:11.000\<newline>add the salt now\<newline>\<newline>00:00:11.500 --> 00:00:12.000\<newline>more <c>salt</c> and pepper\<newline>''
        [''salt'', ''pepper''] 80)
   = [(''salt'', 10), (''pepper'', 11)]
   \<and> map (\<lambda>m. (keyword m, timestamp_seconds m))
       (search_vtt_for_keywords id no_similarity no_similarity
          ''WEBVTT\<newline>\<newline>00:00:10.000 --> 00:00:11.000\<newline>add the salt now\<newline>\<newline>00:00:14.500 --> 00:00:15.000\<newline>more <c>salt</c> and pepper\<newline>''
          [''salt'', ''pepper''] 80)
     = [(''salt'', 10), (''salt'', 14), (''pepper'', 14)]"
proof -
  from temporal_dedup [of id no_similarity no_similarity
      "''WEBVTT\<newline>\<newline>00:00:10.000 --> 00:00:11.000\<newline>add the salt now\<newline>\<newline>00:00:11.500 --> 00:00:12.000\<newline>more <c>salt</c> and pepper\<newline>''"
      "[''salt'', ''pepper'']" 80]
  have near: "map (\<lambda>m. (keyword m, timestamp_seconds m))
     (search_vtt_for_keywords id no_similarity no_similarity
        ''WEBVTT\<newline>\<newline>00:00:10.000 --> 00:00:11.000\<newline>add the salt now\<newline>\<newline>00:00:11.500 --> 00:00:12.000\<newline>more <c>salt</c> and pepper\<newline>''
        [''salt'', ''pepper''] 80)
   = [(''salt'', 10), (''pepper'', 11)]"
    unfolding parse_salt_pepper_near retained_salt_pepper_near by simp
  from temporal_dedup [of id no_similarity no_similarity
      "''WEBVTT\<newline>\<newline>00:00:10.000 --> 00:00:11.000\<newline>add the salt now\<newline>\<newline>00:00:14.500 --> 00:00:15.000\<newline>more <c>salt</c> and pepper\<newline>''"
      "[''salt'', ''pepper'']" 80]
  have far: "map (\<lambda>m. (keyword m, timestamp_seconds m))
     (search_vtt_for_keywords id no_similarity no_similarity
        ''WEBVTT\<newline>\<newline>00:00:10.000 --> 00:00:11.000\<newline>add the salt now\<newline>\<newline>00:00:14.500 --> 00:00:15.000\<newline>more <c>salt</c> and pepper\<newline>''
        [''salt'', ''pepper''] 80)
   = [(''salt'', 10), (''salt'', 14), (''pepper'', 14)]"
    unfolding parse_salt_pepper_far retained_salt_pepper_far by simp
  from near far show ?thesis by simp
qed

text \<open>
  The whole search on a content with hits at 10 s and 11.5 s: one match for "Salt",
  none for "salt" (the same group) and none for the stopword "add".
\<close>

lemma char_of_115: "char_of (115::nat) = CHR ''s''"
  by code_simp

lemma search_example:
  "search_vtt_for_keywords id no_similarity no_similarity
     ''WEBVTT\<newline>\<newline>00:00:10.000 --> 00:00:11.000\<newline>add the salt now\<newline>\<newline>00:00:11.500 --> 00:00:12.000\<newline>more <c>salt</c> here\<newline>''
     [''Salt'', ''salt'', ''add''] 80
   = [\<lparr>keyword = ''Salt'', timestamp_seconds = 10,
        reference_context = ''add the salt now more salt here''\<rparr>]"
  by (simp add: search_vtt_for_keywords_def search_keyword_def visit_cue_def is_duplicate_def
       build_context_def keyword_found_def stem_keyword_def STOPWORDS_def no_similarity_def
       parse_vtt_cues_def strip_def py_isspace_def timestamp_match_def match_timestamp_def
       is_timestamp_def py_isdigit_def is_text_line_def cue_of_def start_millis_of_def digit_value_def
       split_ws_def normalize_text_def lower_def lower_char_def py_isword_def Let_def upt_rec char_of_115)

end
